theory Spec2Isabelle
  imports Complex_Main "HOL-Library.Option_ord" "HOL-Library.Sublist" "HOL-Library.Multiset"
    "HOL-Library.Log_Nat"
begin

section \<open>Data model\<close>

text \<open>
  A JavaScript string is the list of its characters, each a Unicode code point; a character
  outside the Basic Multilingual Plane counts once, and none of the functions below gives
  such a character a meaning of its own. Query parameters, path segments and the text
  fields of a document are such strings. The texts
  the program itself prints or sends are literals of the source and stay Isabelle strings;
  \<open>ascii\<close> turns a literal into a JavaScript string.
\<close>

type_synonym ustring = "nat list"

definition ascii :: "string \<Rightarrow> ustring" where
  "ascii s = map of_char s"

text \<open>
  A hostel document, as declared by \<^verbatim>\<open>hostelSchema\<close> (app.js, lines 30-51). Numbers are
  JavaScript doubles; a stored rating is a finite double, hence a rational. A document
  without a rating has \<open>rating = None\<close>.
\<close>

record hostel =
  name :: ustring
  images :: "ustring list"
  location :: ustring
  description :: "ustring option"
  category :: ustring
  rating :: "rat option"
  rooms :: "(ustring \<times> rat) list"

section \<open>JavaScript numbers\<close>

text \<open>
  A JavaScript number: NaN, an infinity, or a finite double given by its rational value.
  The sign of zero is not kept: no output of the handlers depends on it.
\<close>

datatype jsnum = NaN | NegInf | Fin rat | PosInf

fun num_le :: "jsnum \<Rightarrow> jsnum \<Rightarrow> bool" where
  "num_le NaN y = False"
| "num_le x NaN = False"
| "num_le NegInf y = True"
| "num_le (Fin a) NegInf = False"
| "num_le (Fin a) (Fin b) = (a \<le> b)"
| "num_le (Fin a) PosInf = True"
| "num_le PosInf PosInf = True"
| "num_le PosInf y = False"

text \<open>Rounding to the nearest integer, ties to the even one.\<close>

definition round_half_even :: "rat \<Rightarrow> int" where
  "round_half_even r =
     (let f = \<lfloor>r\<rfloor>; d = r - of_int f
      in if d < 1 / 2 then f
         else if 1 / 2 < d then f + 1
         else if even f then f else f + 1)"

text \<open>
  For a positive \<open>q\<close>, the exponent \<open>e\<close> with \<open>2^e \<le> q < 2^(e+1)\<close>, found from the bit
  lengths of numerator and denominator.
\<close>

definition ilog2 :: "rat \<Rightarrow> int" where
  "ilog2 q =
     (let e = bitlen (fst (quotient_of q)) - bitlen (snd (quotient_of q))
      in if 2 powi e \<le> q then e else e - 1)"

text \<open>
  The double nearest to a rational (IEEE 754 binary64, round to nearest, ties to even):
  53 significant bits, the least exponent is -1022 (below it the spacing stays \<open>2^-1074\<close>),
  and a magnitude that rounds to \<open>2^1024\<close> or more is an infinity.
\<close>

definition to_double :: "rat \<Rightarrow> jsnum" where
  "to_double q =
     (if q = 0 then Fin 0
      else
        (let a = \<bar>q\<bar>;
             u = 2 powi (max (ilog2 a) (- 1022) - 52);
             v = of_int (round_half_even (a / u)) * u
         in if 2 powi 1024 \<le> v then (if 0 < q then PosInf else NegInf)
            else Fin (if 0 < q then v else - v)))"

text \<open>The sign of a number that is not NaN.\<close>

definition sign_of :: "jsnum \<Rightarrow> int" where
  "sign_of x =
     (case x of
        NaN \<Rightarrow> 0
      | NegInf \<Rightarrow> - 1
      | Fin q \<Rightarrow> if q < 0 then - 1 else if q = 0 then 0 else 1
      | PosInf \<Rightarrow> 1)"

text \<open>
  The arithmetic the handlers use: \<^verbatim>\<open>x - y\<close>, \<^verbatim>\<open>x * y\<close>, \<^verbatim>\<open>x / y\<close> and \<^verbatim>\<open>Math.ceil\<close>
  (ECMAScript 6.1.6.1 and 21.3.2.10). A finite result is the exact result rounded.
\<close>

definition js_sub :: "jsnum \<Rightarrow> jsnum \<Rightarrow> jsnum" where
  "js_sub x y =
     (case (x, y) of
        (NaN, _) \<Rightarrow> NaN
      | (_, NaN) \<Rightarrow> NaN
      | (Fin a, Fin b) \<Rightarrow> to_double (a - b)
      | (Fin a, PosInf) \<Rightarrow> NegInf
      | (Fin a, NegInf) \<Rightarrow> PosInf
      | (PosInf, PosInf) \<Rightarrow> NaN
      | (PosInf, _) \<Rightarrow> PosInf
      | (NegInf, NegInf) \<Rightarrow> NaN
      | (NegInf, _) \<Rightarrow> NegInf)"

definition js_mul :: "jsnum \<Rightarrow> jsnum \<Rightarrow> jsnum" where
  "js_mul x y =
     (case (x, y) of
        (NaN, _) \<Rightarrow> NaN
      | (_, NaN) \<Rightarrow> NaN
      | (Fin a, Fin b) \<Rightarrow> to_double (a * b)
      | _ \<Rightarrow>
          if sign_of x * sign_of y = 0 then NaN
          else if 0 < sign_of x * sign_of y then PosInf else NegInf)"

definition js_div :: "jsnum \<Rightarrow> jsnum \<Rightarrow> jsnum" where
  "js_div x y =
     (case (x, y) of
        (NaN, _) \<Rightarrow> NaN
      | (_, NaN) \<Rightarrow> NaN
      | (Fin a, Fin b) \<Rightarrow>
          if b = 0 then (if a = 0 then NaN else if 0 < a then PosInf else NegInf)
          else to_double (a / b)
      | (Fin a, _) \<Rightarrow> Fin 0
      | (PosInf, Fin b) \<Rightarrow> if b < 0 then NegInf else PosInf
      | (NegInf, Fin b) \<Rightarrow> if b < 0 then PosInf else NegInf
      | _ \<Rightarrow> NaN)"

definition js_ceil :: "jsnum \<Rightarrow> jsnum" where
  "js_ceil x = (case x of Fin q \<Rightarrow> Fin (of_int \<lceil>q\<rceil>) | _ \<Rightarrow> x)"

text \<open>A number is falsy when it is NaN or zero.\<close>

definition falsy_num :: "jsnum \<Rightarrow> bool" where
  "falsy_num x = (x = NaN \<or> x = Fin 0)"

section \<open>The JavaScript built-ins the handlers call\<close>

text \<open>
  The white space that \<^verbatim>\<open>parseInt\<close> and \<^verbatim>\<open>parseFloat\<close> skip (\<open>StrWhiteSpaceChar\<close>,
  ECMAScript 7.1.4.1): TAB, LF, VT, FF, CR, SP, U+00A0, U+FEFF, the other space separators
  (U+1680, U+2000 to U+200A, U+202F, U+205F, U+3000), and the line separators U+2028 and
  U+2029.
\<close>

definition is_ws :: "nat \<Rightarrow> bool" where
  "is_ws c =
     (c \<in> set [9, 10, 11, 12, 13, 32, 160, 5760, 8232, 8233, 8239, 8287, 12288, 65279] \<or>
      (8192 \<le> c \<and> c \<le> 8202))"

text \<open>The value of a character as a digit of the given radix, if it is one.\<close>

definition digit_of :: "nat \<Rightarrow> nat \<Rightarrow> nat option" where
  "digit_of radix c =
     (let d = (if 48 \<le> c \<and> c \<le> 57 then Some (c - 48)
               else if 97 \<le> c \<and> c \<le> 122 then Some (c - 87)
               else if 65 \<le> c \<and> c \<le> 90 then Some (c - 55)
               else None)
      in case d of
           None \<Rightarrow> None
         | Some v \<Rightarrow> if v < radix then Some v else None)"

text \<open>
  The longest prefix of radix digits, read as a number; \<open>None\<close> when the string does not
  start with a digit. The accumulator is \<open>None\<close> until the first digit is read.
\<close>

fun read_digits :: "nat \<Rightarrow> int option \<Rightarrow> ustring \<Rightarrow> int option" where
  "read_digits radix acc [] = acc"
| "read_digits radix acc (c # cs) =
     (case digit_of radix c of
        None \<Rightarrow> acc
      | Some d \<Rightarrow>
          read_digits radix
            (Some (case acc of None \<Rightarrow> int d | Some a \<Rightarrow> a * int radix + int d)) cs)"

text \<open>
  \<^verbatim>\<open>parseInt(string)\<close> with no radix (ECMAScript 19.2.5): leading white space is dropped,
  then an optional sign, then an optional \<^verbatim>\<open>0x\<close>/\<^verbatim>\<open>0X\<close> prefix selecting radix 16; the
  longest prefix of digits is read as an integer, and the result is that integer as a
  double, correctly rounded as Node.js does, or NaN when there is no digit.
\<close>

definition parseInt :: "ustring \<Rightarrow> jsnum" where
  "parseInt str =
     (let s = dropWhile is_ws str;
          neg = (case s of c # cs \<Rightarrow> c = of_char CHR ''-'' | [] \<Rightarrow> False);
          s1 = (case s of
                  c # cs \<Rightarrow> if c = of_char CHR ''+'' \<or> c = of_char CHR ''-'' then cs else s
                | [] \<Rightarrow> s);
          hex = (case s1 of
                   a # b # cs \<Rightarrow>
                     a = of_char CHR ''0'' \<and> (b = of_char CHR ''x'' \<or> b = of_char CHR ''X'')
                 | _ \<Rightarrow> False);
          radix = (if hex then 16 else 10);
          s2 = (if hex then drop 2 s1 else s1)
      in case read_digits radix None s2 of
           None \<Rightarrow> NaN
         | Some n \<Rightarrow> to_double (of_int (if neg then - n else n)))"

text \<open>
  \<^verbatim>\<open>parseInt(x) || d\<close> for a query parameter \<open>x\<close>: an absent parameter is \<^verbatim>\<open>undefined\<close>,
  which parses to NaN; NaN and 0 are the falsy numbers, so both select \<open>d\<close>.
\<close>

definition parseInt_or :: "ustring option \<Rightarrow> jsnum \<Rightarrow> jsnum" where
  "parseInt_or x d =
     (case x of
        None \<Rightarrow> d
      | Some s \<Rightarrow> if falsy_num (parseInt s) then d else parseInt s)"

text \<open>
  \<^verbatim>\<open>parseFloat(string)\<close> (ECMAScript 19.2.4): leading white space is dropped and the longest
  prefix that is a \<open>StrDecimalLiteral\<close> is read: an optional sign, then \<^verbatim>\<open>Infinity\<close> or
  decimal digits with an optional fraction and an optional exponent. NaN when no prefix is
  one. JavaScript rounds the literal's mathematical value to a double; the rounding is the
  parameter \<open>rnd\<close>, of which \<open>to_double\<close> is the correct one.
\<close>

definition is_digit :: "nat \<Rightarrow> bool" where
  "is_digit c = (digit_of 10 c \<noteq> None)"

definition digits_val :: "ustring \<Rightarrow> int" where
  "digits_val ds =
     foldl (\<lambda>a c. 10 * a + (case digit_of 10 c of Some d \<Rightarrow> int d | None \<Rightarrow> 0)) 0 ds"

text \<open>
  The exponent part at the head of a string: \<^verbatim>\<open>e\<close> or \<^verbatim>\<open>E\<close>, an optional sign and at
  least one digit; 0 when the string does not start with one.
\<close>

definition exponent_of :: "ustring \<Rightarrow> int" where
  "exponent_of s =
     (case s of
        [] \<Rightarrow> 0
      | c # cs \<Rightarrow>
          if c = of_char CHR ''e'' \<or> c = of_char CHR ''E'' then
            (let neg = (case cs of d # ds \<Rightarrow> d = of_char CHR ''-'' | [] \<Rightarrow> False);
                 ds = (case cs of
                         d # ds' \<Rightarrow>
                           if d = of_char CHR ''+'' \<or> d = of_char CHR ''-'' then ds' else cs
                       | [] \<Rightarrow> cs);
                 es = takeWhile is_digit ds
             in if es = [] then 0
                else if neg then - digits_val es else digits_val es)
          else 0)"

definition scale10 :: "rat \<Rightarrow> int \<Rightarrow> rat" where
  "scale10 m e = (if 0 \<le> e then m * 10 ^ nat e else m / 10 ^ nat (- e))"

definition parseFloat :: "(rat \<Rightarrow> jsnum) \<Rightarrow> ustring \<Rightarrow> jsnum" where
  "parseFloat rnd str =
     (let s = dropWhile is_ws str;
          neg = (case s of c # cs \<Rightarrow> c = of_char CHR ''-'' | [] \<Rightarrow> False);
          s1 = (case s of
                  c # cs \<Rightarrow> if c = of_char CHR ''+'' \<or> c = of_char CHR ''-'' then cs else s
                | [] \<Rightarrow> s)
      in if take 8 s1 = ascii ''Infinity'' then (if neg then NegInf else PosInf)
         else
           (let ip = takeWhile is_digit s1;
                r1 = dropWhile is_digit s1;
                dot = (case r1 of c # cs \<Rightarrow> c = of_char CHR ''.'' | [] \<Rightarrow> False);
                fp = (if dot then takeWhile is_digit (tl r1) else []);
                r2 = (if dot then dropWhile is_digit (tl r1) else r1);
                m = scale10 (of_int (digits_val (ip @ fp))) (- int (length fp));
                v = scale10 m (exponent_of r2)
            in if ip = [] \<and> fp = [] then NaN
               else rnd (if neg then - v else v)))"

text \<open>Truthiness of a query parameter: absent (\<^verbatim>\<open>undefined\<close>) and the empty string are falsy.\<close>

definition truthy :: "ustring option \<Rightarrow> bool" where
  "truthy x = (case x of None \<Rightarrow> False | Some s \<Rightarrow> s \<noteq> [])"

text \<open>
  \<^verbatim>\<open>xs.slice(0, end)\<close> (ECMAScript 23.1.3.28): \<open>end\<close> is truncated to an integer, NaN
  counting as 0; a negative \<open>end\<close> counts from the end of the array, and the bounds are
  clamped to the array.
\<close>

definition slice0 :: "'a list \<Rightarrow> jsnum \<Rightarrow> 'a list" where
  "slice0 xs e =
     (case e of
        NaN \<Rightarrow> []
      | NegInf \<Rightarrow> []
      | PosInf \<Rightarrow> xs
      | Fin q \<Rightarrow>
          (let r = (if q < 0 then \<lceil>q\<rceil> else \<lfloor>q\<rfloor>)
           in take (nat (if r < 0 then int (length xs) + r else r)) xs))"

section \<open>The record store\<close>

text \<open>
  The store is MongoDB behind the mongoose model \<^verbatim>\<open>Hostel\<close>; it is not code of this
  repository. The handlers call it in two ways: \<^verbatim>\<open>Hostel.countDocuments()\<close> and
  \<^verbatim>\<open>Hostel.find(filter)\<close>, the latter optionally followed by \<^verbatim>\<open>.sort\<close>, \<^verbatim>\<open>.skip\<close> and
  \<^verbatim>\<open>.limit\<close>. A call is recorded as a value, so that what a handler asks of the store can
  be stated apart from what the store answers.
\<close>

datatype mongo_filter =
    Fields "ustring option" "jsnum option"
      \<comment> \<open>\<^verbatim>\<open>{category: c, rating: {$gte: v}}\<close>, each key optional\<close>
  | OrRegex ustring
      \<comment> \<open>\<^verbatim>\<open>{$or: [{location: {$regex: p, $options: 'i'}}, {name: {$regex: p, $options: 'i'}}]}\<close>\<close>

datatype sort_dir = Asc | Desc

record find_args =
  conditions :: mongo_filter
  sort_rating :: "sort_dir option"
  skip_n :: "jsnum option"
  limit_n :: "jsnum option"

datatype store_call = CountDocuments | Find find_args

text \<open>
  A store holds its documents in their natural order. \<open>outage\<close> says which calls the store
  or the transport rejects, and with what error. \<open>fold_case\<close> is the case folding of the
  store's regular expression engine under option \<^verbatim>\<open>i\<close>: two characters match each other
  when they fold to the same character. \<open>regex_i\<close> is that engine on the patterns that have
  metacharacters: \<open>regex_i p s\<close> holds when pattern \<open>p\<close> matches somewhere in \<open>s\<close>. The
  store does not change while one request is handled.
\<close>

record store =
  docs :: "hostel list"
  outage :: "store_call \<Rightarrow> string option"
  fold_case :: "nat \<Rightarrow> nat"
  regex_i :: "ustring \<Rightarrow> ustring \<Rightarrow> bool"

text \<open>
  The characters with a meaning of their own in a regular expression:
  \<^verbatim>\<open>\ ^ $ . | ? * + ( ) [ ] { }\<close>. A pattern without any of them is a literal: it matches
  exactly the strings that are equal to it, character by character, up to case under
  option \<^verbatim>\<open>i\<close>.
\<close>

definition metachar :: "nat \<Rightarrow> bool" where
  "metachar c = (c \<in> set [92, 94, 36, 46, 124, 63, 42, 43, 40, 41, 91, 93, 123, 125])"

definition literal_pattern :: "ustring \<Rightarrow> bool" where
  "literal_pattern p = list_all (\<lambda>c. \<not> metachar c) p"

text \<open>
  The search of a literal pattern in a subject, as a regular expression engine runs it:
  \<open>literal_here\<close> tries the pattern at the head of the subject, \<open>literal_search\<close> at every
  position from left to right.
\<close>

fun literal_here :: "(nat \<Rightarrow> nat) \<Rightarrow> ustring \<Rightarrow> ustring \<Rightarrow> bool" where
  "literal_here fc [] s = True"
| "literal_here fc (p # ps) [] = False"
| "literal_here fc (p # ps) (c # cs) = (fc p = fc c \<and> literal_here fc ps cs)"

fun literal_search :: "(nat \<Rightarrow> nat) \<Rightarrow> ustring \<Rightarrow> ustring \<Rightarrow> bool" where
  "literal_search fc p [] = literal_here fc p []"
| "literal_search fc p (c # cs) = (literal_here fc p (c # cs) \<or> literal_search fc p cs)"

text \<open>\<^verbatim>\<open>{$regex: p, $options: 'i'}\<close> on one field.\<close>

definition regex_field :: "store \<Rightarrow> ustring \<Rightarrow> ustring \<Rightarrow> bool" where
  "regex_field st p s =
     (if literal_pattern p then literal_search (fold_case st) p s else regex_i st p s)"

text \<open>
  Which documents a filter selects. A \<^verbatim>\<open>$gte\<close> against a number selects only documents
  that have a numeric rating.
\<close>

definition matches :: "store \<Rightarrow> mongo_filter \<Rightarrow> hostel \<Rightarrow> bool" where
  "matches st f h =
     (case f of
        Fields cat rmin \<Rightarrow>
          (case cat of None \<Rightarrow> True | Some c \<Rightarrow> category h = c) \<and>
          (case rmin of
             None \<Rightarrow> True
           | Some v \<Rightarrow> (case rating h of None \<Rightarrow> False | Some r \<Rightarrow> num_le v (Fin r)))
      | OrRegex p \<Rightarrow> regex_field st p (location h) \<or> regex_field st p (name h))"

text \<open>
  Sorting by rating. A missing rating sorts as null, below every number (the order of
  \<open>rat option\<close>, with \<open>None\<close> least). MongoDB leaves the order of ties open; here ties keep
  their natural order in both directions. An empty sort object is no sort.
\<close>

definition sort_docs :: "sort_dir option \<Rightarrow> hostel list \<Rightarrow> hostel list" where
  "sort_docs s xs =
     (case s of
        None \<Rightarrow> xs
      | Some Asc \<Rightarrow> sort_key rating xs
      | Some Desc \<Rightarrow> rev (sort_key rating (rev xs)))"

text \<open>
  \<^verbatim>\<open>skip\<close> and \<^verbatim>\<open>limit\<close>, as MongoDB documents them. Both must be integers of 64 bits:
  NaN, an infinity, a fraction or a larger magnitude is rejected. A negative skip is
  rejected, a limit of 0 is no limit, and a negative limit is the limit of its absolute
  value. The texts of these errors are not modelled: one text stands for each.
\<close>

definition as_int64 :: "jsnum \<Rightarrow> int option" where
  "as_int64 x =
     (case x of
        Fin q \<Rightarrow> if of_int \<lfloor>q\<rfloor> = q \<and> \<bar>q\<bar> < 2 ^ 63 then Some \<lfloor>q\<rfloor> else None
      | _ \<Rightarrow> None)"

definition skip_docs :: "jsnum option \<Rightarrow> hostel list \<Rightarrow> string + hostel list" where
  "skip_docs sk xs =
     (case sk of
        None \<Rightarrow> Inr xs
      | Some x \<Rightarrow>
          (case as_int64 x of
             None \<Rightarrow> Inl ''Skip value must be an integer''
           | Some n \<Rightarrow>
               if n < 0 then Inl ''Skip value must be non-negative'' else Inr (drop (nat n) xs)))"

definition limit_docs :: "jsnum option \<Rightarrow> hostel list \<Rightarrow> string + hostel list" where
  "limit_docs lm xs =
     (case lm of
        None \<Rightarrow> Inr xs
      | Some x \<Rightarrow>
          (case as_int64 x of
             None \<Rightarrow> Inl ''Limit value must be an integer''
           | Some m \<Rightarrow> Inr (if m = 0 then xs else take (nat \<bar>m\<bar>) xs)))"

definition countDocuments :: "store \<Rightarrow> string + nat" where
  "countDocuments st =
     (case outage st CountDocuments of
        Some e \<Rightarrow> Inl e
      | None \<Rightarrow> Inr (length (docs st)))"

definition find_docs :: "store \<Rightarrow> find_args \<Rightarrow> string + hostel list" where
  "find_docs st a =
     (case outage st (Find a) of
        Some e \<Rightarrow> Inl e
      | None \<Rightarrow>
          (case skip_docs (skip_n a)
                  (sort_docs (sort_rating a) (filter (matches st (conditions a)) (docs st))) of
             Inl e \<Rightarrow> Inl e
           | Inr xs \<Rightarrow> limit_docs (limit_n a) xs))"

text \<open>\<^verbatim>\<open>Hostel.find()\<close>: every document, in natural order.\<close>

definition find_all :: find_args where
  "find_all = \<lparr>conditions = Fields None None, sort_rating = None, skip_n = None, limit_n = None\<rparr>"

section \<open>Process state and the cache loader\<close>

datatype log_entry = Log string | Warn string | Error string string

text \<open>
  \<^verbatim>\<open>hostelCache\<close> (line 56) is the only variable of the process. The console is kept for
  the loader and the connection handlers; the lines the request handlers print are left out.
\<close>

record app_state =
  hostelCache :: "hostel list"
  console :: "log_entry list"

definition initial_state :: app_state where
  "initial_state = \<lparr>hostelCache = [], console = []\<rparr>"

text \<open>How an async function settles.\<close>

datatype settled = Fulfilled | Rejected string

text \<open>
  \<^verbatim>\<open>prefetchHostelData\<close> (lines 59-66). The assignment to \<^verbatim>\<open>hostelCache\<close> runs only after
  \<^verbatim>\<open>await Hostel.find()\<close> has produced its array; a rejection goes to the \<^verbatim>\<open>catch\<close> block.
\<close>

definition prefetchHostelData :: "store \<Rightarrow> app_state \<Rightarrow> app_state \<times> settled" where
  "prefetchHostelData st s =
     (case find_docs st find_all of
        Inr hostels \<Rightarrow>
          (s\<lparr>hostelCache := hostels,
             console := console s @ [Log ''Hostel data pre-fetched and cached'']\<rparr>, Fulfilled)
      | Inl error \<Rightarrow>
          (s\<lparr>console := console s @ [Error ''Error pre-fetching hostel data:'' error]\<rparr>, Fulfilled))"

text \<open>
  Start-up (lines 22-27 and 56): the cache starts empty; when the connection succeeds the
  loader runs once, when it fails the error is printed and the loader never runs.
\<close>

definition startup :: "string option \<Rightarrow> store \<Rightarrow> app_state" where
  "startup connect_error st =
     (case connect_error of
        None \<Rightarrow> fst (prefetchHostelData st (initial_state\<lparr>console := [Log ''MongoDB connected'']\<rparr>))
      | Some err \<Rightarrow> initial_state\<lparr>console := [Error ''MongoDB connection error:'' err]\<rparr>)"

section \<open>Request handlers\<close>

text \<open>
  What a handler sends. \<^verbatim>\<open>res.json\<close> and \<^verbatim>\<open>res.send\<close> answer with status 200 unless
  \<^verbatim>\<open>res.status\<close> was called first.
\<close>

datatype body =
    Text string
  | JsonHostel hostel
  | JsonHostels "hostel list"
  | JsonPage jsnum jsnum "hostel list"
      \<comment> \<open>\<^verbatim>\<open>{totalPages, currentPage, hostels}\<close>\<close>
  | JsonMessage string
      \<comment> \<open>\<^verbatim>\<open>{message}\<close>\<close>
  | JsonError string string
      \<comment> \<open>\<^verbatim>\<open>{message, error}\<close>\<close>

record response =
  status :: nat
  payload :: body

text \<open>
  The outcome of handling one request: the process state afterwards, the response, and the
  store calls issued, in order.
\<close>

record outcome =
  state :: app_state
  reply :: response
  issued :: "store_call list"

text \<open>\<^verbatim>\<open>GET /hostel/:name\<close> (lines 79-87).\<close>

definition get_hostel :: "app_state \<Rightarrow> ustring \<Rightarrow> outcome" where
  "get_hostel s hostelName =
     (case List.find (\<lambda>h. name h = hostelName) (hostelCache s) of
        Some hostel \<Rightarrow>
          \<lparr>state = s, reply = \<lparr>status = 200, payload = JsonHostel hostel\<rparr>, issued = []\<rparr>
      | None \<Rightarrow>
          \<lparr>state = s, reply = \<lparr>status = 404, payload = Text ''Hostel not found''\<rparr>, issued = []\<rparr>)"

text \<open>
  \<^verbatim>\<open>GET /hostel-data\<close> (lines 90-108). The count the store returns becomes a JavaScript
  number; \<open>limit\<close> is never 0, since 0 selects the default.
\<close>

definition get_hostel_data ::
    "store \<Rightarrow> app_state \<Rightarrow> ustring option \<Rightarrow> ustring option \<Rightarrow> outcome" where
  "get_hostel_data st s page_param limit_param =
     (let page = parseInt_or page_param (Fin 1);
          limit = parseInt_or limit_param (Fin 5);
          skip = js_mul (js_sub page (Fin 1)) limit;
          q = find_all\<lparr>skip_n := Some skip, limit_n := Some limit\<rparr>
      in case countDocuments st of
           Inl error \<Rightarrow>
             \<lparr>state = s,
              reply = \<lparr>status = 500, payload = JsonError ''Error fetching hostel data'' error\<rparr>,
              issued = [CountDocuments]\<rparr>
         | Inr totalHostels \<Rightarrow>
             (case find_docs st q of
                Inl error \<Rightarrow>
                  \<lparr>state = s,
                   reply = \<lparr>status = 500, payload = JsonError ''Error fetching hostel data'' error\<rparr>,
                   issued = [CountDocuments, Find q]\<rparr>
              | Inr hostels \<Rightarrow>
                  \<lparr>state = s,
                   reply = \<lparr>status = 200,
                            payload = JsonPage
                              (js_ceil (js_div (to_double (of_nat totalHostels)) limit))
                              page hostels\<rparr>,
                   issued = [CountDocuments, Find q]\<rparr>))"

text \<open>
  \<^verbatim>\<open>GET /hostels\<close> (lines 111-151). \<open>rnd\<close> is the rounding of \<^verbatim>\<open>parseFloat\<close>. The filter and
  the sort are built first; the invalid rating returns before any store call.
\<close>

definition get_hostels ::
    "(rat \<Rightarrow> jsnum) \<Rightarrow> store \<Rightarrow> app_state \<Rightarrow> ustring option \<Rightarrow> ustring option \<Rightarrow> outcome" where
  "get_hostels rnd st s category_param rating_param =
     (let cat = (if truthy category_param then category_param else None);
          built =
            (case rating_param of
               None \<Rightarrow> Inr (None, None)
             | Some rating_str \<Rightarrow>
                 if \<not> truthy rating_param then Inr (None, None)
                 else if rating_str = ascii ''low-to-high'' then Inr (None, Some Asc)
                 else if rating_str = ascii ''high-to-low'' then Inr (None, Some Desc)
                 else
                   (let parsedRating = parseFloat rnd rating_str
                    in if parsedRating \<noteq> NaN then Inr (Some parsedRating, None)
                       else Inl rating_str))
      in case built of
           Inl invalid \<Rightarrow>
             \<lparr>state = s,
              reply = \<lparr>status = 400, payload = JsonMessage ''Invalid rating value provided''\<rparr>,
              issued = []\<rparr>
         | Inr (rmin, srt) \<Rightarrow>
             (let q = \<lparr>conditions = Fields cat rmin, sort_rating = srt,
                       skip_n = None, limit_n = None\<rparr>
              in case find_docs st q of
                   Inl error \<Rightarrow>
                     \<lparr>state = s,
                      reply = \<lparr>status = 500,
                               payload = JsonError ''Error fetching filtered hostel data'' error\<rparr>,
                      issued = [Find q]\<rparr>
                 | Inr filteredHostels \<Rightarrow>
                     \<lparr>state = s,
                      reply = \<lparr>status = 200, payload = JsonHostels filteredHostels\<rparr>,
                      issued = [Find q]\<rparr>))"

text \<open>\<^verbatim>\<open>POST /search\<close> (lines 154-169), for a body whose \<^verbatim>\<open>query\<close> field is a string.\<close>

definition post_search :: "store \<Rightarrow> app_state \<Rightarrow> ustring \<Rightarrow> outcome" where
  "post_search st s query =
     (let q = \<lparr>conditions = OrRegex query, sort_rating = None, skip_n = None, limit_n = None\<rparr>
      in case find_docs st q of
           Inl error \<Rightarrow>
             \<lparr>state = s,
              reply = \<lparr>status = 500, payload = JsonError ''Error performing search'' error\<rparr>,
              issued = [Find q]\<rparr>
         | Inr searchResults \<Rightarrow>
             \<lparr>state = s,
              reply = \<lparr>status = 200, payload = JsonHostels searchResults\<rparr>,
              issued = [Find q]\<rparr>)"

text \<open>\<^verbatim>\<open>GET /hostel-limit\<close> (lines 172-176).\<close>

definition get_hostel_limit :: "app_state \<Rightarrow> ustring option \<Rightarrow> outcome" where
  "get_hostel_limit s limit_param =
     (let limit = parseInt_or limit_param (Fin 5);
          limitedHostels = slice0 (hostelCache s) limit
      in \<lparr>state = s, reply = \<lparr>status = 200, payload = JsonHostels limitedHostels\<rparr>, issued = []\<rparr>)"

text \<open>\<^verbatim>\<open>GET /\<close> and \<^verbatim>\<open>GET /about\<close> (lines 69-76).\<close>

definition get_root :: "app_state \<Rightarrow> outcome" where
  "get_root s = \<lparr>state = s, reply = \<lparr>status = 200, payload = Text ''Hello World''\<rparr>, issued = []\<rparr>"

definition get_about :: "app_state \<Rightarrow> outcome" where
  "get_about s =
     \<lparr>state = s, reply = \<lparr>status = 200, payload = Text ''This is the About page''\<rparr>, issued = []\<rparr>"

text \<open>The routes of the application and their dispatch.\<close>

datatype request =
    GetRoot
  | GetAbout
  | GetHostel ustring
  | GetHostelData "ustring option" "ustring option"
  | GetHostels "ustring option" "ustring option"
  | PostSearch ustring
  | GetHostelLimit "ustring option"

fun handle :: "(rat \<Rightarrow> jsnum) \<Rightarrow> store \<Rightarrow> app_state \<Rightarrow> request \<Rightarrow> outcome" where
  "handle rnd st s GetRoot = get_root s"
| "handle rnd st s GetAbout = get_about s"
| "handle rnd st s (GetHostel n) = get_hostel s n"
| "handle rnd st s (GetHostelData p l) = get_hostel_data st s p l"
| "handle rnd st s (GetHostels c r) = get_hostels rnd st s c r"
| "handle rnd st s (PostSearch q) = post_search st s q"
| "handle rnd st s (GetHostelLimit l) = get_hostel_limit s l"

text \<open>
  Serving a sequence of requests, one after the other, from a given state; each request
  comes with the store as it stands when the request is handled.
\<close>

fun serve :: "(rat \<Rightarrow> jsnum) \<Rightarrow> app_state \<Rightarrow> (store \<times> request) list \<Rightarrow> app_state" where
  "serve rnd s [] = s"
| "serve rnd s ((st, r) # rs) = serve rnd (state (handle rnd st s r)) rs"

section \<open>Text search: what the specification says\<close>


section \<open>Example data\<close>

text \<open>The case folding of ASCII letters.\<close>

definition ascii_fold :: "nat \<Rightarrow> nat" where
  "ascii_fold c = (if 65 \<le> c \<and> c \<le> 90 then c + 32 else c)"

text \<open>
  An engine for the patterns made of literal characters and the dot, which matches any
  character but a line feed: \<open>dot_here\<close> matches the pattern at the head of the subject,
  \<open>dot_regex_i\<close> anywhere in it. The examples call it on such patterns only.
\<close>

fun dot_here :: "ustring \<Rightarrow> ustring \<Rightarrow> bool" where
  "dot_here [] s = True"
| "dot_here (p # ps) [] = False"
| "dot_here (p # ps) (c # cs) =
     ((if p = of_char CHR ''.'' then c \<noteq> 10 else ascii_fold p = ascii_fold c) \<and> dot_here ps cs)"

fun dot_regex_i :: "ustring \<Rightarrow> ustring \<Rightarrow> bool" where
  "dot_regex_i p [] = dot_here p []"
| "dot_regex_i p (c # cs) = (dot_here p (c # cs) \<or> dot_regex_i p cs)"

definition north_lodge :: hostel where
  "north_lodge = \<lparr>name = ascii ''North Lodge'', images = [], location = ascii ''Lahore'',
     description = None, category = ascii ''boys'', rating = Some 3, rooms = []\<rparr>"

definition city_inn :: hostel where
  "city_inn = \<lparr>name = ascii ''City Inn'', images = [], location = ascii ''Northgate'',
     description = None, category = ascii ''girls'', rating = Some (9 / 2), rooms = []\<rparr>"

definition abc_house :: hostel where
  "abc_house = \<lparr>name = ascii ''abc'', images = [], location = ascii ''Karachi'',
     description = None, category = ascii ''co-ed'', rating = Some 2, rooms = []\<rparr>"

definition new_hall :: hostel where
  "new_hall = \<lparr>name = ascii ''New Hall'', images = [], location = ascii ''Multan'',
     description = None, category = ascii ''boys'', rating = None, rooms = []\<rparr>"

text \<open>A store that answers every call, and one that rejects every call.\<close>

definition example_store :: store where
  "example_store = \<lparr>docs = [north_lodge, city_inn, abc_house, new_hall],
     outage = (\<lambda>c. None), fold_case = ascii_fold, regex_i = dot_regex_i\<rparr>"

definition failing_store :: store where
  "failing_store = \<lparr>docs = [north_lodge, city_inn, abc_house, new_hall],
     outage = (\<lambda>c. Some ''connection refused''), fold_case = ascii_fold, regex_i = dot_regex_i\<rparr>"

definition example_state :: app_state where
  "example_state = \<lparr>hostelCache = [north_lodge, city_inn, abc_house], console = []\<rparr>"




section \<open>Properties of the rounding\<close>

lemma rhe_cases:
  "round_half_even r = \<lfloor>r\<rfloor> \<and> r - of_int \<lfloor>r\<rfloor> \<le> 1 / 2 \<or>
   round_half_even r = \<lfloor>r\<rfloor> + 1 \<and> 1 / 2 \<le> r - of_int \<lfloor>r\<rfloor>"
  by (simp add: round_half_even_def Let_def)

lemma rhe_upper: "of_int (round_half_even r) \<le> r + 1 / 2"
proof -
  have f: "of_int \<lfloor>r\<rfloor> \<le> r" by simp
  from rhe_cases [of r] show ?thesis
  proof
    assume "round_half_even r = \<lfloor>r\<rfloor> \<and> r - of_int \<lfloor>r\<rfloor> \<le> 1 / 2"
    then have "of_int (round_half_even r) = (of_int \<lfloor>r\<rfloor> :: rat)" by simp
    then show ?thesis by linarith
  next
    assume a: "round_half_even r = \<lfloor>r\<rfloor> + 1 \<and> 1 / 2 \<le> r - of_int \<lfloor>r\<rfloor>"
    then have "of_int (round_half_even r) = (of_int \<lfloor>r\<rfloor> :: rat) + 1" by simp
    with a show ?thesis by linarith
  qed
qed

lemma rhe_lower: "r - 1 / 2 \<le> of_int (round_half_even r)"
proof -
  have f: "r < of_int \<lfloor>r\<rfloor> + 1" by linarith
  from rhe_cases [of r] show ?thesis
  proof
    assume a: "round_half_even r = \<lfloor>r\<rfloor> \<and> r - of_int \<lfloor>r\<rfloor> \<le> 1 / 2"
    then have "of_int (round_half_even r) = (of_int \<lfloor>r\<rfloor> :: rat)" by simp
    with a show ?thesis by linarith
  next
    assume a: "round_half_even r = \<lfloor>r\<rfloor> + 1 \<and> 1 / 2 \<le> r - of_int \<lfloor>r\<rfloor>"
    then have "of_int (round_half_even r) = (of_int \<lfloor>r\<rfloor> :: rat) + 1" by simp
    with f show ?thesis by linarith
  qed
qed

lemma rhe_of_int [simp]: "round_half_even (of_int z) = z"
  by (simp add: round_half_even_def)

lemma rhe_le: "r \<le> of_int z \<Longrightarrow> round_half_even r \<le> z"
proof -
  assume a: "r \<le> of_int z"
  show ?thesis
  proof (cases "r = of_int z")
    case True
    then show ?thesis by simp
  next
    case False
    with a have "r < of_int z" by simp
    then have "\<lfloor>r\<rfloor> < z" by (simp add: floor_less_iff)
    then have "\<lfloor>r\<rfloor> + 1 \<le> z" by simp
    moreover have "round_half_even r \<le> \<lfloor>r\<rfloor> + 1"
      by (simp add: round_half_even_def Let_def)
    ultimately show ?thesis by linarith
  qed
qed

lemma rhe_ge: "of_int z \<le> r \<Longrightarrow> z \<le> round_half_even r"
proof -
  assume "of_int z \<le> r"
  then have "z \<le> \<lfloor>r\<rfloor>" by (simp add: le_floor_iff)
  moreover have "\<lfloor>r\<rfloor> \<le> round_half_even r"
    by (simp add: round_half_even_def Let_def)
  ultimately show ?thesis by linarith
qed

lemma pow2_bitlen:
  assumes "0 < a"
  shows "(2::rat) powi (bitlen a - 1) \<le> of_int a" and "of_int a < (2::rat) powi bitlen a"
proof -
  from bitlen_bounds [OF assms]
  have b: "2 ^ nat (bitlen a - 1) \<le> a" "a < 2 ^ nat (bitlen a)" by simp_all
  from assms have p: "1 \<le> bitlen a" by (auto simp: bitlen_alt_def)
  have "(2::rat) powi (bitlen a - 1) = 2 ^ nat (bitlen a - 1)"
    using p by (simp add: power_int_def)
  also have "\<dots> = of_int (2 ^ nat (bitlen a - 1))" by simp
  also have "\<dots> \<le> of_int a" using b(1) by (simp only: of_int_le_iff)
  finally show "(2::rat) powi (bitlen a - 1) \<le> of_int a" .
  have "(of_int a :: rat) < of_int (2 ^ nat (bitlen a))"
    using b(2) by (simp only: of_int_less_iff)
  also have "\<dots> = 2 ^ nat (bitlen a)" by simp
  also have "\<dots> = (2::rat) powi bitlen a"
    using p by (simp add: power_int_def)
  finally show "of_int a < (2::rat) powi bitlen a" .
qed

lemma ilog2_bounds:
  assumes "0 < q"
  shows "2 powi ilog2 q \<le> q" and "q < 2 powi (ilog2 q + 1)"
proof -
  obtain a b where ab: "quotient_of q = (a, b)" by (cases "quotient_of q")
  then have b: "0 < b" and q: "q = of_int a / of_int b"
    using quotient_of_denom_pos quotient_of_div by blast+
  from assms q b have a: "0 < a"
    by (simp add: zero_less_divide_iff)
  let ?e = "bitlen a - bitlen b"
  note A = pow2_bitlen [OF a] and B = pow2_bitlen [OF b]
  have bpos: "(0::rat) < of_int b" using b by simp
  have lo: "2 powi (?e - 1) < q"
  proof -
    have "(2::rat) powi (?e - 1) * of_int b < 2 powi (?e - 1) * 2 powi bitlen b"
      using B(2) by (simp add: mult_strict_left_mono)
    also have "\<dots> = 2 powi (bitlen a - 1)"
      by (simp flip: power_int_add)
    also have "\<dots> \<le> of_int a" by (rule A(1))
    finally show ?thesis unfolding q using bpos by (simp add: pos_less_divide_eq)
  qed
  have hi: "q < 2 powi (?e + 1)"
  proof -
    have "of_int a < (2::rat) powi bitlen a" by (rule A(2))
    also have "\<dots> = 2 powi (?e + 1) * 2 powi (bitlen b - 1)"
      by (simp flip: power_int_add)
    also have "\<dots> \<le> 2 powi (?e + 1) * of_int b"
      using B(1) by (simp add: mult_left_mono)
    finally show ?thesis unfolding q using bpos by (simp add: pos_divide_less_eq)
  qed
  have il: "ilog2 q = (if 2 powi ?e \<le> q then ?e else ?e - 1)"
    by (simp add: ilog2_def ab Let_def)
  show "2 powi ilog2 q \<le> q"
    using lo by (auto simp: il)
  show "q < 2 powi (ilog2 q + 1)"
    using hi by (auto simp: il not_le)
qed

lemma to_double_pos:
  assumes "0 < q"
  shows "to_double q =
     (let u = 2 powi (max (ilog2 q) (- 1022) - 52);
          v = of_int (round_half_even (q / u)) * u
      in if 2 powi 1024 \<le> v then PosInf else Fin v)"
  using assms by (simp add: to_double_def Let_def)

lemma to_double_neg:
  assumes "q < 0"
  shows "to_double q =
     (let u = 2 powi (max (ilog2 (- q)) (- 1022) - 52);
          v = of_int (round_half_even (- q / u)) * u
      in if 2 powi 1024 \<le> v then NegInf else Fin (- v))"
  using assms by (simp add: to_double_def Let_def)

lemma to_double_grid:
  assumes "0 < q" and "q < 2 powi 1024"
      and "q / 2 powi (max (ilog2 q) (- 1022) - 52) = of_int z"
  shows "to_double q = Fin q"
proof -
  let ?u = "(2::rat) powi (max (ilog2 q) (- 1022) - 52)"
  have u: "0 < ?u" by simp
  have "of_int (round_half_even (q / ?u)) * ?u = of_int z * ?u"
    by (simp add: assms(3))
  also have "\<dots> = q" using assms(3) u by (simp add: field_simps)
  finally have v: "of_int (round_half_even (q / ?u)) * ?u = q" .
  show ?thesis
    using assms(2) by (simp add: to_double_pos [OF assms(1)] Let_def v)
qed

lemma ilog2_int_nonneg:
  assumes "1 \<le> q"
  shows "0 \<le> ilog2 q"
proof (rule ccontr)
  assume "\<not> 0 \<le> ilog2 q"
  then have "ilog2 q + 1 \<le> 0" by simp
  then have "(2::rat) powi (ilog2 q + 1) \<le> 2 powi 0"
    by (intro power_int_increasing) simp_all
  with ilog2_bounds(2) [of q] assms show False by simp
qed

lemma ilog2_less:
  assumes "0 < q" and "q < 2 powi k"
  shows "ilog2 q < k"
proof (rule ccontr)
  assume "\<not> ilog2 q < k"
  then have "(2::rat) powi k \<le> 2 powi ilog2 q"
    by (intro power_int_increasing) simp_all
  with ilog2_bounds(1) [OF assms(1)] assms(2) show False by simp
qed

lemma to_double_nat_exact:
  assumes "n \<le> 2 ^ 53"
  shows "to_double (of_nat n) = Fin (of_nat n)"
proof (cases "n = 0")
  case True
  then show ?thesis by (simp add: to_double_def)
next
  case False
  let ?q = "of_nat n :: rat"
  from False have q1: "1 \<le> ?q" by simp
  then have q0: "0 < ?q" by linarith
  have k0: "0 \<le> ilog2 ?q" by (rule ilog2_int_nonneg [OF q1])
  have "?q \<le> 2 ^ 53" using assms by (metis of_nat_le_iff of_nat_numeral of_nat_power)
  then have "?q < 2 powi 54" by simp
  then have k54: "ilog2 ?q < 54" by (rule ilog2_less [OF q0])
  have big: "?q < 2 powi 1024"
  proof -
    have "?q < 2 powi 54" by fact
    also have "(2::rat) powi 54 \<le> 2 powi 1024" by (intro power_int_increasing) simp_all
    finally show ?thesis .
  qed
  have m: "max (ilog2 ?q) (- 1022) = ilog2 ?q" using k0 by simp
  show ?thesis
  proof (cases "ilog2 ?q \<le> 52")
    case True
    then have "?q / 2 powi (ilog2 ?q - 52) = ?q * 2 powi (52 - ilog2 ?q)"
      by (simp add: power_int_diff field_simps)
    also have "\<dots> = ?q * 2 ^ nat (52 - ilog2 ?q)"
      using True by (simp add: power_int_def)
    also have "\<dots> = of_int (int n * 2 ^ nat (52 - ilog2 ?q))" by simp
    finally show ?thesis
      using to_double_grid [OF q0 big] by (simp only: m)
  next
    case False
    with k54 have k: "ilog2 ?q = 53" by simp
    from ilog2_bounds(1) [OF q0] have "2 ^ 53 \<le> ?q" by (simp add: k)
    with \<open>?q \<le> 2 ^ 53\<close> have e: "?q = 2 ^ 53" by simp
    have "?q / 2 powi (53 - 52) = of_int (2 ^ 52)"
      by (simp add: e)
    then have "?q / 2 powi (ilog2 ?q - 52) = of_int (2 ^ 52)"
      by (simp only: k)
    then show ?thesis
      using to_double_grid [OF q0 big] by (simp only: m)
  qed
qed

lemma to_double_finite_bound:
  assumes "to_double q = Fin v"
  shows "\<bar>v\<bar> < 2 powi 1024"
proof -
  consider "q = 0" | "0 < q" | "q < 0" by linarith
  then show ?thesis
  proof cases
    case 1
    with assms show ?thesis by (simp add: to_double_def)
  next
    case 2
    let ?w = "of_int (round_half_even (q / 2 powi (max (ilog2 q) (- 1022) - 52))) *
        (2::rat) powi (max (ilog2 q) (- 1022) - 52)"
    have "0 \<le> q / 2 powi (max (ilog2 q) (- 1022) - 52)" using 2 by simp
    then have "0 \<le> round_half_even (q / 2 powi (max (ilog2 q) (- 1022) - 52))"
      using rhe_ge [of 0] by simp
    then have w: "0 \<le> ?w" by simp
    from assms have "v = ?w \<and> ?w < 2 powi 1024"
      by (simp add: to_double_pos [OF 2] Let_def split: if_splits)
    with w show ?thesis by simp
  next
    case 3
    let ?w = "of_int (round_half_even (- q / 2 powi (max (ilog2 (- q)) (- 1022) - 52))) *
        (2::rat) powi (max (ilog2 (- q)) (- 1022) - 52)"
    have "0 \<le> - q / 2 powi (max (ilog2 (- q)) (- 1022) - 52)"
      using 3 by (simp add: divide_le_0_iff)
    then have "0 \<le> round_half_even (- q / 2 powi (max (ilog2 (- q)) (- 1022) - 52))"
      using rhe_ge [of 0] by simp
    then have w: "0 \<le> ?w" by simp
    from assms have "v = - ?w \<and> ?w < 2 powi 1024"
      by (simp add: to_double_neg [OF 3] Let_def split: if_splits)
    with w show ?thesis by simp
  qed
qed

lemma pow2_add: "(2::rat) powi (m + n) = 2 powi m * 2 powi n"
  by (simp add: power_int_add)

lemma pow2_half: "(2::rat) powi (e - 52) / 2 = 2 powi e * 2 powi (- 53)"
proof -
  have "(2::rat) powi (e - 52) = 2 powi (e + (- 53) + 1)"
    by (rule arg_cong [where f = "\<lambda>x. 2 powi x"]) simp
  also have "\<dots> = 2 powi e * 2 powi (- 53) * 2 powi 1" by (simp only: pow2_add)
  finally show ?thesis by simp
qed

lemma ceiling_to_double_quotient:
  fixes a :: nat and l :: int
  assumes a: "a < 2 ^ 53" and l: "1 \<le> l" and lb: "(of_int l :: rat) < 2 powi 1024"
  shows "\<exists>v. to_double (of_nat a / of_int l) = Fin v \<and> \<lceil>v\<rceil> = \<lceil>(of_nat a :: rat) / of_int l\<rceil>"
proof (cases "a = 0")
  case True
  then show ?thesis by (simp add: to_double_def)
next
  case False
  define L :: rat where "L = of_int l"
  define q :: rat where "q = of_nat a / L"
  define k where "k = max (ilog2 q) (- 1022)"
  define u :: rat where "u = 2 powi (k - 52)"
  define m where "m = round_half_even (q / u)"
  define v :: rat where "v = of_int m * u"
  define n where "n = \<lceil>q\<rceil>"
  have L: "1 \<le> L" using l by (simp add: L_def)
  then have Lpos: "0 < L" by linarith
  have A: "(of_nat a :: rat) < 2 ^ 53"
    using a by (metis of_nat_less_iff of_nat_numeral of_nat_power)
  have apos: "(0::rat) < of_nat a" using False by simp
  have q0: "0 < q" unfolding q_def using apos Lpos by (rule divide_pos_pos)
  have qL: "q * L = of_nat a" unfolding q_def using Lpos by simp
  have qa: "q \<le> of_nat a"
  proof -
    have "q * 1 \<le> q * L" using L q0 by (intro mult_left_mono) simp_all
    then show ?thesis by (simp add: qL)
  qed
  have u0: "0 < u" by (simp add: u_def)
  have "q < 2 powi 53" using qa A by simp
  then have "ilog2 q < 53" by (rule ilog2_less [OF q0])
  then have k52: "k \<le> 52" by (simp add: k_def)
  define N :: int where "N = 2 ^ nat (52 - k)"
  have inv_u: "of_int N * u = 1"
  proof -
    have "(of_int N :: rat) = 2 powi (52 - k)"
      using k52 by (simp add: N_def power_int_def)
    then have "of_int N * u = 2 powi (52 - k) * 2 powi (k - 52)" by (simp add: u_def)
    also have "\<dots> = 2 powi 0" by (simp flip: power_int_add)
    finally show ?thesis by simp
  qed
  have qn: "q \<le> of_int n" by (simp add: n_def)
  have nq: "of_int (n - 1) < q" unfolding n_def by linarith
  text \<open>The rounded value does not exceed the ceiling.\<close>
  have upper: "v \<le> of_int n"
  proof -
    have "q / u = q * of_int N"
      using inv_u u0 by (simp add: field_simps)
    also have "\<dots> \<le> of_int n * of_int N"
      using qn by (intro mult_right_mono) (simp_all add: N_def)
    also have "\<dots> = of_int (n * N)" by simp
    finally have "m \<le> n * N" unfolding m_def by (rule rhe_le)
    then have "(of_int m :: rat) \<le> of_int (n * N)" by (simp only: of_int_le_iff)
    then have "of_int m * u \<le> of_int (n * N) * u"
      using u0 by (intro mult_right_mono) simp_all
    also have "\<dots> = of_int n * (of_int N * u)" by simp
    finally show ?thesis by (simp add: v_def inv_u)
  qed
  text \<open>The quotient is at least \<open>1 / l\<close> above the integer below it.\<close>
  have gap: "1 \<le> (q - of_int (n - 1)) * L"
  proof -
    have "of_int (n - 1) * L < q * L"
      using nq Lpos by (intro mult_strict_right_mono)
    then have "of_int (n - 1) * L < of_nat a" by (simp only: qL)
    then have "(of_int ((n - 1) * l) :: rat) < of_int (int a)" by (simp add: L_def)
    then have "(n - 1) * l < int a" by (simp only: of_int_less_iff)
    then have "(n - 1) * l + 1 \<le> int a" by simp
    then have "(of_int ((n - 1) * l + 1) :: rat) \<le> of_int (int a)" by (simp only: of_int_le_iff)
    then have "of_int (n - 1) * L + 1 \<le> of_nat a" by (simp add: L_def)
    then have "of_int (n - 1) * L + 1 \<le> q * L" by (simp only: qL)
    then show ?thesis by (simp add: algebra_simps)
  qed
  text \<open>Half a unit in the last place, times \<open>l\<close>, is less than 1.\<close>
  have half: "u / 2 * L < 1"
  proof (cases "- 1022 \<le> ilog2 q")
    case True
    then have k: "k = ilog2 q" by (simp add: k_def)
    have "2 powi k * L \<le> q * L"
      using ilog2_bounds(1) [OF q0] Lpos by (intro mult_right_mono) (simp_all add: k)
    also have "\<dots> < 2 powi 53" using A by (simp add: qL)
    finally have "2 powi k * L < 2 powi 53" .
    then have "2 powi k * L * 2 powi (- 53) < 2 powi 53 * 2 powi (- 53)"
      by (intro mult_strict_right_mono) simp_all
    also have "(2::rat) powi 53 * 2 powi (- 53) = 1" by (simp flip: power_int_add)
    finally have "2 powi k * L * 2 powi (- 53) < 1" .
    then have less: "2 powi k * 2 powi (- 53) * L < 1" by (simp only: mult_ac)
    have h: "u / 2 = 2 powi k * 2 powi (- 53)"
      unfolding u_def by (rule pow2_half)
    show ?thesis unfolding h by (rule less)
  next
    case False
    then have k: "k = - 1022" by (simp add: k_def)
    have "u / 2 = 2 powi (- 1074) * 2 powi (- 1)" by (simp add: u_def k)
    also have "\<dots> = 2 powi (- 1075)" by (simp flip: power_int_add)
    also have "\<dots> \<le> 2 powi (- 1024)" by (intro power_int_increasing) simp_all
    finally have "u / 2 \<le> 2 powi (- 1024)" .
    then have "u / 2 * L \<le> 2 powi (- 1024) * L"
      using Lpos by (intro mult_right_mono) simp_all
    also have "\<dots> < 2 powi (- 1024) * 2 powi 1024"
      using lb by (intro mult_strict_left_mono) (simp_all add: L_def)
    also have "\<dots> = 1" by (simp flip: power_int_add)
    finally show ?thesis .
  qed
  have lower: "of_int (n - 1) < v"
  proof -
    have "q / u - 1 / 2 \<le> of_int m" unfolding m_def by (rule rhe_lower)
    then have "(q / u - 1 / 2) * u \<le> of_int m * u"
      using u0 by (intro mult_right_mono) simp_all
    moreover have "(q / u - 1 / 2) * u = q - u / 2"
      using u0 by (simp add: left_diff_distrib)
    ultimately have qv: "q - u / 2 \<le> v" by (simp only: v_def)
    have "u / 2 * L < (q - of_int (n - 1)) * L" using half gap by linarith
    then have "u / 2 < q - of_int (n - 1)"
      using Lpos by (simp only: mult_less_cancel_right_pos)
    with qv show ?thesis by linarith
  qed
  have nb: "of_int n \<le> (of_nat a :: rat)"
  proof -
    have "n \<le> int a" unfolding n_def using qa by (simp add: ceiling_le_iff)
    then have "(of_int n :: rat) \<le> of_int (int a)" by (simp only: of_int_le_iff)
    then show ?thesis by simp
  qed
  have "v < 2 powi 1024"
  proof -
    have "v \<le> of_nat a" using upper nb by linarith
    also have "\<dots> < 2 powi 53" using A by simp
    also have "(2::rat) powi 53 \<le> 2 powi 1024" by (intro power_int_increasing) simp_all
    finally show ?thesis .
  qed
  then have d: "to_double q = Fin v"
    by (simp add: to_double_pos [OF q0] Let_def v_def m_def u_def k_def)
  have "\<lceil>v\<rceil> = n"
    using lower upper by (intro ceiling_unique) simp_all
  with d show ?thesis by (auto simp: n_def q_def L_def)
qed

lemma to_double_minus:
  "to_double (- q) =
     (case to_double q of NaN \<Rightarrow> NaN | NegInf \<Rightarrow> PosInf | Fin v \<Rightarrow> Fin (- v) | PosInf \<Rightarrow> NegInf)"
  by (simp add: to_double_def Let_def)

lemma to_double_int_exact:
  assumes "\<bar>n\<bar> \<le> 2 ^ 53"
  shows "to_double (of_int n) = Fin (of_int n)"
proof (cases "0 \<le> n")
  case True
  then have "nat n \<le> 2 ^ 53" using assms by (simp add: nat_le_iff)
  from to_double_nat_exact [OF this] True show ?thesis by simp
next
  case False
  then have "nat (- n) \<le> 2 ^ 53" using assms by (simp add: nat_le_iff)
  from to_double_nat_exact [OF this] False
  have "to_double (of_int (- n)) = Fin (of_int (- n))" by simp
  then have "to_double (- (- of_int n)) = Fin (of_int n)"
    by (subst to_double_minus) simp
  then show ?thesis by simp
qed

lemma ilog2_ge:
  assumes "0 < q" and "2 powi k \<le> q"
  shows "k \<le> ilog2 q"
proof (rule ccontr)
  assume "\<not> k \<le> ilog2 q"
  then have "(2::rat) powi (ilog2 q + 1) \<le> 2 powi k"
    by (intro power_int_increasing) simp_all
  with ilog2_bounds(2) [OF assms(1)] assms(2) show False by simp
qed

lemma to_double_nat_integer:
  assumes "to_double (of_nat n) = Fin v"
  shows "\<exists>z. v = of_int z"
proof (cases "n \<le> 2 ^ 53")
  case True
  from to_double_nat_exact [OF this] assms have "v = of_int (int n)" by simp
  then show ?thesis ..
next
  case False
  let ?q = "of_nat n :: rat"
  from False have "2 ^ 53 \<le> n" by simp
  then have "(2::rat) ^ 53 \<le> ?q" by (metis of_nat_le_iff of_nat_numeral of_nat_power)
  then have big: "(2::rat) powi 53 \<le> ?q" by simp
  then have q0: "0 < ?q" by (rule less_le_trans [rotated]) simp
  from ilog2_ge [OF q0 big] have k: "53 \<le> ilog2 ?q" .
  then have m: "max (ilog2 ?q) (- 1022) - 52 = int (nat (ilog2 ?q - 52))" by simp
  have u: "(2::rat) powi (max (ilog2 ?q) (- 1022) - 52) = of_int (2 ^ nat (ilog2 ?q - 52))"
    by (simp only: m power_int_of_nat) simp
  from assms have "v = of_int (round_half_even (?q / 2 powi (max (ilog2 ?q) (- 1022) - 52))) *
      2 powi (max (ilog2 ?q) (- 1022) - 52)"
    by (simp add: to_double_pos [OF q0] Let_def split: if_splits)
  then have "v = of_int (round_half_even (?q / 2 powi (max (ilog2 ?q) (- 1022) - 52)) *
      2 ^ nat (ilog2 ?q - 52))"
    by (simp only: u of_int_mult)
  then show ?thesis ..
qed

lemma to_double_int_integer:
  assumes "to_double (of_int n) = Fin v"
  shows "\<exists>z. v = of_int z"
proof (cases "0 \<le> n")
  case True
  with assms have "to_double (of_nat (nat n)) = Fin v" by simp
  then show ?thesis by (rule to_double_nat_integer)
next
  case False
  then have e: "(of_int n :: rat) = - of_nat (nat (- n))" by simp
  from assms have "to_double (of_nat (nat (- n))) = Fin (- v)"
    unfolding e to_double_minus by (simp split: jsnum.splits)
  from to_double_nat_integer [OF this] obtain z where "- v = of_int z" ..
  then have "v = of_int (- z)" by simp
  then show ?thesis ..
qed

section \<open>Lookup by name\<close>

text \<open>
  C9. \<^verbatim>\<open>GET /hostel/:name\<close> scans the cache from the front for a record whose name is
  exactly the path segment. It answers 200 exactly when the cache holds a record of that
  name, and then with the first such record as JSON; when no cached record has the name it
  answers 404 with the text "Hostel not found". No store call is issued and the state is
  left as it was.
\<close>

theorem get_hostel_lookup:
  "(status (reply (get_hostel s n)) = 200 \<longleftrightarrow> (\<exists>h \<in> set (hostelCache s). name h = n)) \<and>
   ((\<exists>h \<in> set (hostelCache s). name h = n) \<longrightarrow>
      (\<exists>i < length (hostelCache s).
         reply (get_hostel s n) = \<lparr>status = 200, payload = JsonHostel (hostelCache s ! i)\<rparr> \<and>
         name (hostelCache s ! i) = n \<and>
         (\<forall>j < i. name (hostelCache s ! j) \<noteq> n))) \<and>
   ((\<forall>h \<in> set (hostelCache s). name h \<noteq> n) \<longrightarrow>
      reply (get_hostel s n) = \<lparr>status = 404, payload = Text ''Hostel not found''\<rparr>) \<and>
   issued (get_hostel s n) = [] \<and>
   state (get_hostel s n) = s"
proof (cases "List.find (\<lambda>h. name h = n) (hostelCache s)")
  case None
  then have no: "\<forall>h \<in> set (hostelCache s). name h \<noteq> n"
    by (auto simp: find_None_iff)
  from None have "get_hostel s n =
      \<lparr>state = s, reply = \<lparr>status = 404, payload = Text ''Hostel not found''\<rparr>, issued = []\<rparr>"
    by (simp add: get_hostel_def)
  with no show ?thesis by auto
next
  case (Some h)
  then obtain i where i: "i < length (hostelCache s)" "hostelCache s ! i = h" "name h = n"
      "\<forall>j < i. name (hostelCache s ! j) \<noteq> n"
    by (auto simp: find_Some_iff)
  from Some have g: "get_hostel s n =
      \<lparr>state = s, reply = \<lparr>status = 200, payload = JsonHostel h\<rparr>, issued = []\<rparr>"
    by (simp add: get_hostel_def)
  from i have ex: "\<exists>h \<in> set (hostelCache s). name h = n"
    by (metis nth_mem)
  from i g ex show ?thesis by auto
qed

theorem get_hostel_lookup_witness:
  "map name (hostelCache example_state) = [ascii ''North Lodge'', ascii ''City Inn'', ascii ''abc''] \<and>
   reply (get_hostel example_state (ascii ''City Inn'')) = \<lparr>status = 200, payload = JsonHostel city_inn\<rparr> \<and>
   reply (get_hostel example_state (ascii ''Nowhere'')) =
     \<lparr>status = 404, payload = Text ''Hostel not found''\<rparr>"
proof -
  have names: "map name (hostelCache example_state) = [ascii ''North Lodge'', ascii ''City Inn'', ascii ''abc'']"
    by (simp add: example_state_def north_lodge_def city_inn_def abc_house_def)
  have a: "\<exists>h \<in> set (hostelCache example_state). name h = ascii ''City Inn''"
    by (simp add: example_state_def city_inn_def)
  have b: "\<forall>h \<in> set (hostelCache example_state). name h \<noteq> ascii ''Nowhere''"
    by (simp add: example_state_def north_lodge_def city_inn_def abc_house_def ascii_def)
  from get_hostel_lookup [of example_state "ascii ''City Inn''"] a
  obtain i where i: "i < length (hostelCache example_state)"
     "reply (get_hostel example_state (ascii ''City Inn'')) =
        \<lparr>status = 200, payload = JsonHostel (hostelCache example_state ! i)\<rparr>"
     "name (hostelCache example_state ! i) = ascii ''City Inn''"
    by blast
  have "i = 1" using i(1,3)
    by (auto simp: example_state_def north_lodge_def city_inn_def abc_house_def ascii_def
        less_Suc_eq numeral_3_eq_3)
  with i(2) have c: "reply (get_hostel example_state (ascii ''City Inn'')) =
      \<lparr>status = 200, payload = JsonHostel city_inn\<rparr>"
    by (simp add: example_state_def)
  from get_hostel_lookup [of example_state "ascii ''Nowhere''"] b
  have d: "reply (get_hostel example_state (ascii ''Nowhere'')) =
      \<lparr>status = 404, payload = Text ''Hostel not found''\<rparr>"
    by blast
  from names c d show ?thesis by blast
qed

section \<open>Values of the parsers\<close>

lemma to_double_numeral:
  "(numeral k :: int) \<le> 2 ^ 53 \<Longrightarrow> to_double (numeral k) = Fin (numeral k)"
  using to_double_int_exact [of "numeral k"] by simp

lemma to_double_neg_numeral:
  "(numeral k :: int) \<le> 2 ^ 53 \<Longrightarrow> to_double (- numeral k) = Fin (- numeral k)"
  using to_double_int_exact [of "- numeral k"] by simp

lemma to_double_one: "to_double 1 = Fin 1"
  using to_double_int_exact [of 1] by simp

lemma to_double_minus_one: "to_double (- 1) = Fin (- 1)"
  using to_double_int_exact [of "- 1"] by simp

lemma to_double_zero: "to_double 0 = Fin 0"
  by (simp add: to_double_def)

lemmas parse_defs = parseInt_def parseInt_or_def falsy_num_def ascii_def is_ws_def digit_of_def
  to_double_numeral to_double_neg_numeral to_double_one to_double_minus_one to_double_zero

lemma parseInt_integer:
  assumes "parseInt str = Fin m"
  shows "\<exists>z. m = of_int z"
  using assms
  by (auto simp: parseInt_def Let_def split: option.splits dest: to_double_int_integer)

lemma parseInt_or_integer:
  assumes "parseInt_or x (Fin (of_int d)) = Fin m"
  shows "\<exists>z. m = of_int z"
  using assms
  by (auto simp: parseInt_or_def split: option.splits if_splits dest: parseInt_integer)

lemma parseInt_or_not_falsy:
  assumes "\<not> falsy_num d"
  shows "\<not> falsy_num (parseInt_or x d)"
  using assms by (simp add: parseInt_or_def split: option.splits)

lemma parseInt_or_2: "parseInt_or (Some (ascii ''2'')) (Fin 5) = Fin 2"
  by (simp add: parse_defs)

lemma parseInt_or_nbsp_2: "parseInt_or (Some [160, 50]) (Fin 5) = Fin 2"
  by (simp add: parse_defs)

lemma parseInt_or_minus_1: "parseInt_or (Some (ascii ''-1'')) (Fin 5) = Fin (- 1)"
  by (simp add: parse_defs)

section \<open>Capped cache read\<close>

lemma slice0_pos: "0 < z \<Longrightarrow> slice0 xs (Fin (of_int z)) = take (nat z) xs"
  by (simp add: slice0_def)

lemma slice0_neg: "z < 0 \<Longrightarrow> slice0 xs (Fin (of_int z)) = take (length xs - nat (- z)) xs"
proof -
  assume "z < 0"
  then have "nat (int (length xs) + z) = length xs - nat (- z)" by linarith
  with \<open>z < 0\<close> show ?thesis by (simp add: slice0_def)
qed

lemma slice0_numeral: "slice0 xs (Fin (numeral k)) = take (numeral k) xs"
  using slice0_pos [of "numeral k" xs] by simp

lemma slice0_minus_one: "slice0 xs (Fin (- 1)) = take (length xs - 1) xs"
  using slice0_neg [of "- 1" xs] by simp

lemma get_hostel_limit_eq:
  "get_hostel_limit s lp =
     \<lparr>state = s,
      reply = \<lparr>status = 200,
               payload = JsonHostels (slice0 (hostelCache s) (parseInt_or lp (Fin 5)))\<rparr>,
      issued = []\<rparr>"
  by (simp add: get_hostel_limit_def Let_def)

text \<open>
  C6, as the claim states it, fails for a negative limit: \<^verbatim>\<open>GET /hostel-limit?limit=-1\<close> on
  a cache of three records (a cache of size at least the limit) answers with the first two
  records, not with "exactly limit entries".
\<close>

theorem get_hostel_limit_negative:
  "parseInt_or (Some (ascii ''-1'')) (Fin 5) = Fin (- 1) \<and>
   - 1 \<le> int (length (hostelCache example_state)) \<and>
   payload (reply (get_hostel_limit example_state (Some (ascii ''-1'')))) =
     JsonHostels [north_lodge, city_inn] \<and>
   int (length [north_lodge, city_inn]) \<noteq> - 1"
  by (simp add: get_hostel_limit_eq parseInt_or_minus_1 slice0_minus_one example_state_def)

text \<open>
  C6, amended. Let \<open>limit\<close> be \<^verbatim>\<open>parseInt(req.query.limit) || 5\<close>: a non-zero integer or an
  infinity. Every \<^verbatim>\<open>GET /hostel-limit\<close> request is answered 200 from the cache alone (there
  is no error path and no store call). When \<open>limit\<close> is positive the response is exactly the
  first \<open>limit\<close> entries of the cache in cache order: exactly \<open>limit\<close> entries when the
  cache has at least that many, the whole cache when it has fewer (or \<open>limit\<close> is
  \<open>Infinity\<close>), and \<open>[]\<close> on an empty cache. When \<open>limit\<close> is negative the response is the
  cache without its last \<open>-limit\<close> entries (nothing for \<open>-Infinity\<close>).
\<close>

theorem get_hostel_limit_slice:
  assumes "limit = parseInt_or lp (Fin 5)"
  shows "status (reply (get_hostel_limit s lp)) = 200 \<and>
     issued (get_hostel_limit s lp) = [] \<and>
     ((\<exists>l. l \<noteq> 0 \<and> limit = Fin (of_int l)) \<or> limit = PosInf \<or> limit = NegInf) \<and>
     (\<forall>l. limit = Fin (of_int l) \<and> 0 < l \<longrightarrow>
        payload (reply (get_hostel_limit s lp)) = JsonHostels (take (nat l) (hostelCache s)) \<and>
        (l \<le> int (length (hostelCache s)) \<longrightarrow>
           (\<exists>hs. payload (reply (get_hostel_limit s lp)) = JsonHostels hs \<and> int (length hs) = l)) \<and>
        (int (length (hostelCache s)) < l \<longrightarrow>
           payload (reply (get_hostel_limit s lp)) = JsonHostels (hostelCache s))) \<and>
     (limit = PosInf \<longrightarrow> payload (reply (get_hostel_limit s lp)) = JsonHostels (hostelCache s)) \<and>
     (hostelCache s = [] \<longrightarrow> payload (reply (get_hostel_limit s lp)) = JsonHostels []) \<and>
     (\<forall>l. limit = Fin (of_int l) \<and> l < 0 \<longrightarrow>
        payload (reply (get_hostel_limit s lp)) =
          JsonHostels (take (length (hostelCache s) - nat (- l)) (hostelCache s))) \<and>
     (limit = NegInf \<longrightarrow> payload (reply (get_hostel_limit s lp)) = JsonHostels [])"
proof -
  have p: "payload (reply (get_hostel_limit s lp)) = JsonHostels (slice0 (hostelCache s) limit)"
    by (simp add: get_hostel_limit_eq assms)
  have st: "status (reply (get_hostel_limit s lp)) = 200" "issued (get_hostel_limit s lp) = []"
    by (simp_all add: get_hostel_limit_eq)
  have shape: "(\<exists>l. l \<noteq> 0 \<and> limit = Fin (of_int l)) \<or> limit = PosInf \<or> limit = NegInf"
  proof (cases limit)
    case NaN
    with parseInt_or_not_falsy [of "Fin 5" lp] show ?thesis
      by (simp add: assms falsy_num_def)
  next
    case (Fin m)
    then have "parseInt_or lp (Fin (of_int 5)) = Fin m" by (simp add: assms)
    from parseInt_or_integer [OF this] obtain z where z: "m = of_int z" ..
    from parseInt_or_not_falsy [of "Fin 5" lp] Fin z have "z \<noteq> 0"
      by (auto simp: assms falsy_num_def)
    with Fin z show ?thesis by blast
  qed simp_all
  have pos: "slice0 (hostelCache s) limit = take (nat l) (hostelCache s)"
    if "limit = Fin (of_int l)" "0 < l" for l
    using that by (simp add: slice0_pos)
  have exact: "int (length (take (nat l) (hostelCache s))) = l"
    if "0 < l" "l \<le> int (length (hostelCache s))" for l
    using that by simp
  have small: "take (nat l) (hostelCache s) = hostelCache s"
    if "int (length (hostelCache s)) < l" for l
    using that by simp
  have inf: "slice0 (hostelCache s) PosInf = hostelCache s" "slice0 (hostelCache s) NegInf = []"
    by (simp_all add: slice0_def)
  have empty: "slice0 (hostelCache s) limit = []" if "hostelCache s = []"
    using that by (simp add: slice0_def split: jsnum.splits)
  have neg: "slice0 (hostelCache s) limit =
      take (length (hostelCache s) - nat (- l)) (hostelCache s)"
    if "limit = Fin (of_int l)" "l < 0" for l
    using that by (simp add: slice0_neg)
  show ?thesis
    unfolding p using st shape pos exact small inf empty neg by (intro conjI allI impI) auto
qed


theorem get_hostel_limit_slice_witness:
  "Fin 2 = parseInt_or (Some [160, 50]) (Fin 5) \<and>
   hostelCache example_state = [north_lodge, city_inn, abc_house] \<and>
   payload (reply (get_hostel_limit example_state (Some [160, 50]))) =
     JsonHostels [north_lodge, city_inn] \<and>
   payload (reply (get_hostel_limit initial_state (Some [160, 50]))) = JsonHostels []"
proof -
  have l: "Fin 2 = parseInt_or (Some [160, 50]) (Fin 5)" by (simp add: parseInt_or_nbsp_2)
  have c: "hostelCache example_state = [north_lodge, city_inn, abc_house]"
    by (simp add: example_state_def)
  have two: "Fin 2 = Fin (of_int 2) \<and> (0::int) < 2" by simp
  note t = get_hostel_limit_slice [OF l, of example_state]
  note t4 = t [THEN conjunct2, THEN conjunct2, THEN conjunct2, THEN conjunct1]
  from t4 [rule_format, OF two]
  have "payload (reply (get_hostel_limit example_state (Some [160, 50]))) =
      JsonHostels (take (nat 2) (hostelCache example_state))"
    by (rule conjunct1)
  then have a: "payload (reply (get_hostel_limit example_state (Some [160, 50]))) =
      JsonHostels [north_lodge, city_inn]"
    by (simp add: c numeral_2_eq_2)
  note e = get_hostel_limit_slice [OF l, of initial_state]
  from e have b: "payload (reply (get_hostel_limit initial_state (Some [160, 50]))) = JsonHostels []"
    by (simp add: initial_state_def)
  from l c a b show ?thesis by blast
qed

section \<open>Paginated listing\<close>

lemma matches_no_filter: "matches st (Fields None None) h"
  by (simp add: matches_def)

lemma as_int64_of_int: "\<bar>l\<bar> < 2 ^ 63 \<Longrightarrow> as_int64 (Fin (of_int l)) = Some l"
proof -
  assume a: "\<bar>l\<bar> < 2 ^ 63"
  then have "(of_int \<bar>l\<bar> :: rat) < of_int (2 ^ 63)" by (simp only: of_int_less_iff)
  then have "\<bar>of_int l :: rat\<bar> < 2 ^ 63" by simp
  then show ?thesis by (simp add: as_int64_def)
qed

lemma as_int64_Some:
  assumes "as_int64 x = Some n"
  shows "x = Fin (of_int n)" and "\<bar>n\<bar> < 2 ^ 63"
proof -
  from assms obtain q where x: "x = Fin q"
    by (cases x) (simp_all add: as_int64_def)
  from assms have c: "of_int \<lfloor>q\<rfloor> = q \<and> \<bar>q\<bar> < 2 ^ 63"
    unfolding x as_int64_def by (simp split: if_splits)
  with assms have n: "n = \<lfloor>q\<rfloor>"
    unfolding x as_int64_def by simp
  from c n have q: "q = of_int n" by (simp only:)
  then show "x = Fin (of_int n)" by (simp add: x)
  from c have "\<bar>of_int n :: rat\<bar> < of_int (2 ^ 63)" unfolding q by simp
  then have "(of_int \<bar>n\<bar> :: rat) < of_int (2 ^ 63)" by simp
  then show "\<bar>n\<bar> < 2 ^ 63" by (simp only: of_int_less_iff)
qed

lemma find_docs_page:
  assumes "outage st (Find (find_all\<lparr>skip_n := Some (Fin (of_int k)),
              limit_n := Some (Fin (of_int m))\<rparr>)) = None"
      and "0 \<le> k" and "k < 2 ^ 63" and "0 < m" and "m < 2 ^ 63"
  shows "find_docs st (find_all\<lparr>skip_n := Some (Fin (of_int k)),
            limit_n := Some (Fin (of_int m))\<rparr>) =
           Inr (take (nat m) (drop (nat k) (docs st)))"
proof -
  have k: "as_int64 (Fin (of_int k)) = Some k" using assms(2,3) by (intro as_int64_of_int) simp
  have m: "as_int64 (Fin (of_int m)) = Some m" using assms(4,5) by (intro as_int64_of_int) simp
  show ?thesis
    using assms(1,2,4)
    by (simp add: find_docs_def find_all_def matches_no_filter sort_docs_def skip_docs_def
        limit_docs_def k m)
qed

lemma find_docs_page_result:
  assumes "find_docs st (find_all\<lparr>skip_n := Some sk, limit_n := Some lm\<rparr>) = Inr hs"
  shows "\<exists>k m. sk = Fin (of_int k) \<and> 0 \<le> k \<and> lm = Fin (of_int m) \<and> \<bar>m\<bar> < 2 ^ 63 \<and>
           hs = (if m = 0 then drop (nat k) (docs st) else take (nat \<bar>m\<bar>) (drop (nat k) (docs st)))"
proof -
  from assms obtain k m where km: "as_int64 sk = Some k" "\<not> k < 0" "as_int64 lm = Some m"
      "hs = (if m = 0 then drop (nat k) (docs st) else take (nat \<bar>m\<bar>) (drop (nat k) (docs st)))"
    by (auto simp: find_docs_def find_all_def matches_no_filter sort_docs_def skip_docs_def
        limit_docs_def split: option.splits if_splits)
  from as_int64_Some [OF km(1)] as_int64_Some [OF km(3)] km(2,4) show ?thesis by auto
qed

lemma find_docs_all:
  "find_docs st find_all =
     (case outage st (Find find_all) of Some e \<Rightarrow> Inl e | None \<Rightarrow> Inr (docs st))"
  by (simp add: find_docs_def find_all_def matches_no_filter sort_docs_def skip_docs_def
      limit_docs_def split: option.splits)

lemma ceiling_pages:
  fixes total :: nat and limit :: int
  assumes "0 < limit"
  shows "(\<lceil>(of_nat total :: rat) / of_int limit\<rceil> - 1) * limit < int total \<and>
         int total \<le> \<lceil>(of_nat total :: rat) / of_int limit\<rceil> * limit"
proof -
  let ?q = "(of_nat total :: rat) / of_int limit"
  have pos: "(0 :: rat) < of_int limit" using assms by simp
  have "of_int \<lceil>?q\<rceil> - 1 < ?q" by linarith
  then have "(of_int \<lceil>?q\<rceil> - 1) * of_int limit < (of_nat total :: rat)"
    using pos by (simp add: pos_less_divide_eq)
  then have "(of_int ((\<lceil>?q\<rceil> - 1) * limit) :: rat) < of_int (int total)"
    by simp
  then have a: "(\<lceil>?q\<rceil> - 1) * limit < int total"
    by (simp only: of_int_less_iff)
  have "(of_nat total :: rat) \<le> of_int \<lceil>?q\<rceil> * of_int limit"
    using pos_divide_le_eq [OF pos, of "of_nat total" "of_int \<lceil>?q\<rceil>"]
      le_of_int_ceiling [of ?q] by blast
  then have "(of_int (int total) :: rat) \<le> of_int (\<lceil>?q\<rceil> * limit)"
    by simp
  then have b: "int total \<le> \<lceil>?q\<rceil> * limit"
    by (simp only: of_int_le_iff)
  from a b show ?thesis by simp
qed

text \<open>\<^verbatim>\<open>Math.ceil(totalHostels / limit)\<close> is the ceiling of the exact quotient.\<close>

lemma total_pages_exact:
  fixes total :: nat and l :: int
  assumes "total < 2 ^ 53" and "1 \<le> l" and "l < 2 ^ 63"
  shows "js_ceil (js_div (to_double (of_nat total)) (Fin (of_int l))) =
           Fin (of_int \<lceil>(of_nat total :: rat) / of_int l\<rceil>)"
proof -
  have t: "to_double (of_nat total) = Fin (of_nat total)"
    using assms(1) by (intro to_double_nat_exact) simp
  have "(of_int l :: rat) < of_int (2 ^ 63)" using assms(3) by (simp only: of_int_less_iff)
  also have "\<dots> = 2 powi 63" by simp
  also have "\<dots> \<le> 2 powi 1024" by (intro power_int_increasing) simp_all
  finally have lb: "(of_int l :: rat) < 2 powi 1024" .
  from ceiling_to_double_quotient [OF assms(1,2) lb]
  obtain v where v: "to_double (of_nat total / of_int l) = Fin v"
      "\<lceil>v\<rceil> = \<lceil>(of_nat total :: rat) / of_int l\<rceil>"
    by blast
  from assms(2) have "(of_int l :: rat) \<noteq> 0" by simp
  then show ?thesis by (simp add: t js_div_def js_ceil_def v)
qed

lemma skip_exact:
  assumes "1 \<le> p" and "1 \<le> l" and "(p - 1) * l \<le> 2 ^ 53"
  shows "js_mul (js_sub (Fin (of_int p)) (Fin 1)) (Fin (of_int l)) = Fin (of_int ((p - 1) * l))"
proof -
  have "p - 1 \<le> (p - 1) * l" using assms(1,2) by (simp add: mult_le_cancel_left1)
  with assms have a: "\<bar>p - 1\<bar> \<le> 2 ^ 53" by simp
  have "js_sub (Fin (of_int p)) (Fin 1) = to_double (of_int (p - 1))"
    by (simp add: js_sub_def)
  also have "\<dots> = Fin (of_int (p - 1))" by (rule to_double_int_exact [OF a])
  finally have s: "js_sub (Fin (of_int p)) (Fin 1) = Fin (of_int (p - 1))" .
  have b: "\<bar>(p - 1) * l\<bar> \<le> 2 ^ 53" using assms by simp
  have "js_mul (Fin (of_int (p - 1))) (Fin (of_int l)) = to_double (of_int ((p - 1) * l))"
    by (simp add: js_mul_def)
  also have "\<dots> = Fin (of_int ((p - 1) * l))" by (rule to_double_int_exact [OF b])
  finally show ?thesis by (simp only: s)
qed


lemma get_hostel_data_unfold:
  assumes "outage st CountDocuments = None"
      and "q = \<lparr>conditions = Fields None None, sort_rating = None,
                  skip_n = Some (js_mul (js_sub (parseInt_or pp (Fin 1)) (Fin 1)) (parseInt_or lp (Fin 5))),
                  limit_n = Some (parseInt_or lp (Fin 5))\<rparr>"
  shows "get_hostel_data st s pp lp =
     (case find_docs st q of
        Inl error \<Rightarrow>
          \<lparr>state = s,
           reply = \<lparr>status = 500, payload = JsonError ''Error fetching hostel data'' error\<rparr>,
           issued = [CountDocuments, Find q]\<rparr>
      | Inr hostels \<Rightarrow>
          \<lparr>state = s,
           reply = \<lparr>status = 200,
                    payload = JsonPage
                      (js_ceil (js_div (to_double (of_nat (length (docs st)))) (parseInt_or lp (Fin 5))))
                      (parseInt_or pp (Fin 1)) hostels\<rparr>,
           issued = [CountDocuments, Find q]\<rparr>)"
  using assms(1) unfolding assms(2)
  by (simp add: get_hostel_data_def Let_def countDocuments_def find_all_def)

lemma real_ceiling_quotient:
  "\<lceil>real a / real_of_int l\<rceil> = \<lceil>(of_nat a :: rat) / of_int l\<rceil>"
proof -
  have "real a / real_of_int l = of_rat ((of_nat a :: rat) / of_int l)"
    by (simp add: of_rat_divide)
  then show ?thesis by (simp only: of_rat_ceiling)
qed

text \<open>
  C2. Let \<open>page\<close> and \<open>limit\<close> be the numbers \<^verbatim>\<open>GET /hostel-data\<close> computes from its query;
  when both are at least 1 the handler counts the documents and then asks the store for the
  unfiltered, unsorted documents with \<open>skip = (page - 1) * limit\<close> and \<open>limit\<close>, the
  arithmetic being JavaScript's. Every 200 response has \<open>currentPage = page\<close>, at most
  \<open>limit\<close> hostels, and \<open>totalPages = Math.ceil(totalCount / limit)\<close>, \<open>totalCount\<close> being
  the number of documents in the store; for a count below \<open>2^53\<close> this is the exact ceiling
  of the quotient, the least number of pages of \<open>limit\<close> records that holds them all.
  JavaScript's product is the exact one as long as it does not exceed \<open>2^53\<close>, and then,
  when the store answers, the response is 200 with the documents from position \<open>skip\<close> on.
\<close>

theorem get_hostel_data_page:
  assumes page: "page = parseInt_or pp (Fin 1)" and limit: "limit = parseInt_or lp (Fin 5)"
      and p1: "num_le (Fin 1) page" and l1: "num_le (Fin 1) limit"
      and skip: "skip = js_mul (js_sub page (Fin 1)) limit"
      and q: "q = \<lparr>conditions = Fields None None, sort_rating = None,
                   skip_n = Some skip, limit_n = Some limit\<rparr>"
      and up: "outage st CountDocuments = None"
  shows "issued (get_hostel_data st s pp lp) = [CountDocuments, Find q] \<and>
     (\<forall>tp cp hs.
        reply (get_hostel_data st s pp lp) = \<lparr>status = 200, payload = JsonPage tp cp hs\<rparr> \<longrightarrow>
        cp = page \<and>
        tp = js_ceil (js_div (to_double (of_nat (length (docs st)))) limit) \<and>
        (\<exists>l. limit = Fin (of_int l) \<and> int (length hs) \<le> l \<and>
             (length (docs st) < 2 ^ 53 \<longrightarrow>
                (\<exists>n. tp = Fin (of_int n) \<and>
                     n = \<lceil>real (length (docs st)) / real_of_int l\<rceil> \<and>
                     (n - 1) * l < int (length (docs st)) \<and>
                     int (length (docs st)) \<le> n * l)))) \<and>
     (\<forall>p l. page = Fin (of_int p) \<and> limit = Fin (of_int l) \<and>
            (p - 1) * l \<le> 2 ^ 53 \<and> l < 2 ^ 63 \<longrightarrow>
        skip = Fin (of_int ((p - 1) * l)) \<and>
        (outage st (Find q) = None \<longrightarrow>
           (\<exists>tp. reply (get_hostel_data st s pp lp) =
              \<lparr>status = 200,
               payload = JsonPage tp page
                 (take (nat l) (drop (nat ((p - 1) * l)) (docs st)))\<rparr>)))"
proof -
  let ?total = "length (docs st)"
  let ?tp = "js_ceil (js_div (to_double (of_nat ?total)) limit)"
  have q': "q = find_all\<lparr>skip_n := Some skip, limit_n := Some limit\<rparr>"
    by (simp add: q find_all_def)
  have g: "get_hostel_data st s pp lp =
     (case find_docs st q of
        Inl error \<Rightarrow>
          \<lparr>state = s,
           reply = \<lparr>status = 500, payload = JsonError ''Error fetching hostel data'' error\<rparr>,
           issued = [CountDocuments, Find q]\<rparr>
      | Inr hostels \<Rightarrow>
          \<lparr>state = s,
           reply = \<lparr>status = 200, payload = JsonPage ?tp page hostels\<rparr>,
           issued = [CountDocuments, Find q]\<rparr>)"
    unfolding page limit
    by (rule get_hostel_data_unfold [OF up]) (simp add: q skip page limit)
  have i: "issued (get_hostel_data st s pp lp) = [CountDocuments, Find q]"
    unfolding g by (simp split: sum.splits)
  have b: "cp = page \<and> tp = ?tp \<and>
        (\<exists>l. limit = Fin (of_int l) \<and> int (length hs) \<le> l \<and>
             (?total < 2 ^ 53 \<longrightarrow>
                (\<exists>n. tp = Fin (of_int n) \<and> n = \<lceil>real ?total / real_of_int l\<rceil> \<and>
                     (n - 1) * l < int ?total \<and> int ?total \<le> n * l)))"
    if r: "reply (get_hostel_data st s pp lp) = \<lparr>status = 200, payload = JsonPage tp cp hs\<rparr>"
    for tp cp hs
  proof -
    from r have f: "find_docs st q = Inr hs" and cp: "cp = page" and tp: "tp = ?tp"
      unfolding g by (simp_all split: sum.splits)
    from find_docs_page_result [OF f [unfolded q']]
    obtain k m where km: "skip = Fin (of_int k)" "0 \<le> k" "limit = Fin (of_int m)" "\<bar>m\<bar> < 2 ^ 63"
        "hs = (if m = 0 then drop (nat k) (docs st) else take (nat \<bar>m\<bar>) (drop (nat k) (docs st)))"
      by blast
    from l1 km(3) have m1: "1 \<le> m" by simp
    with km(5) have hs: "hs = take (nat m) (drop (nat k) (docs st))" by simp
    then have len: "int (length hs) \<le> m" using m1 by simp
    have pages: "\<exists>n. tp = Fin (of_int n) \<and> n = \<lceil>real ?total / real_of_int m\<rceil> \<and>
                     (n - 1) * m < int ?total \<and> int ?total \<le> n * m"
      if small: "?total < 2 ^ 53"
    proof -
      from km(4) have "m < 2 ^ 63" by simp
      from total_pages_exact [OF small m1 this]
      have "tp = Fin (of_int \<lceil>(of_nat ?total :: rat) / of_int m\<rceil>)"
        by (simp add: tp km(3))
      moreover from ceiling_pages [of m ?total] m1
      have "(\<lceil>(of_nat ?total :: rat) / of_int m\<rceil> - 1) * m < int ?total"
        "int ?total \<le> \<lceil>(of_nat ?total :: rat) / of_int m\<rceil> * m"
        by simp_all
      ultimately show ?thesis by (simp add: real_ceiling_quotient)
    qed
    from cp tp km(3) len pages show ?thesis by blast
  qed
  have c: "skip = Fin (of_int ((p - 1) * l)) \<and>
        (outage st (Find q) = None \<longrightarrow>
           (\<exists>tp. reply (get_hostel_data st s pp lp) =
              \<lparr>status = 200,
               payload = JsonPage tp page (take (nat l) (drop (nat ((p - 1) * l)) (docs st)))\<rparr>))"
    if h: "page = Fin (of_int p) \<and> limit = Fin (of_int l) \<and> (p - 1) * l \<le> 2 ^ 53 \<and> l < 2 ^ 63"
    for p l
  proof -
    from h p1 l1 have pl: "1 \<le> p" "1 \<le> l" by simp_all
    from h have sm: "(p - 1) * l \<le> 2 ^ 53" and lb: "l < 2 ^ 63" by simp_all
    from skip_exact [OF pl sm] h have sk: "skip = Fin (of_int ((p - 1) * l))"
      by (simp add: skip)
    have k0: "0 \<le> (p - 1) * l" using pl by simp
    have kb: "(p - 1) * l < 2 ^ 63" using sm by simp
    have "reply (get_hostel_data st s pp lp) =
        \<lparr>status = 200,
         payload = JsonPage ?tp page (take (nat l) (drop (nat ((p - 1) * l)) (docs st)))\<rparr>"
      if o: "outage st (Find q) = None"
    proof -
      have l0: "0 < l" using pl(2) by simp
      have ql: "q = find_all\<lparr>skip_n := Some (Fin (of_int ((p - 1) * l))),
          limit_n := Some (Fin (of_int l))\<rparr>"
        using h by (simp add: q' sk)
      from find_docs_page [OF o [unfolded ql] k0 kb l0 lb]
      have "find_docs st q = Inr (take (nat l) (drop (nat ((p - 1) * l)) (docs st)))"
        by (simp only: ql)
      then show ?thesis unfolding g by simp
    qed
    with sk show ?thesis by blast
  qed
  from i b c show ?thesis by blast
qed

lemma ilog2_unique:
  assumes "2 powi k \<le> q" and "q < 2 powi (k + 1)"
  shows "ilog2 q = k"
proof -
  have q0: "0 < q" using assms(1) by (rule less_le_trans [rotated]) simp
  from ilog2_ge [OF q0 assms(1)] have "k \<le> ilog2 q" .
  moreover from ilog2_less [OF q0 assms(2)] have "ilog2 q < k + 1" .
  ultimately show ?thesis by simp
qed

lemma to_double_rounds_to_even: "to_double 9007199254740993 = Fin 9007199254740992"
proof -
  have k: "ilog2 9007199254740993 = 53" by (rule ilog2_unique) simp_all
  have "\<lfloor>9007199254740993 / 2 :: rat\<rfloor> = 4503599627370496"
    by (rule floor_unique) simp_all
  then have r: "round_half_even (9007199254740993 / 2) = 4503599627370496"
    by (simp add: round_half_even_def Let_def)
  have p: "(0::rat) < 9007199254740993" by simp
  show ?thesis
    by (simp add: to_double_pos [OF p] k r Let_def)
qed

lemma parseInt_or_large:
  "parseInt_or (Some (ascii ''9007199254740993'')) (Fin 1) = Fin 9007199254740992"
  by (simp add: parseInt_def parseInt_or_def falsy_num_def ascii_def is_ws_def digit_of_def
      to_double_rounds_to_even)

lemma parseInt_or_limit3: "parseInt_or (Some (ascii ''3'')) (Fin 5) = Fin 3"
  by (simp add: parse_defs)

lemma parseInt_or_nbsp_page2: "parseInt_or (Some [160, 50]) (Fin 1) = Fin 2"
  by (simp add: parse_defs)

lemma example_store_up: "outage example_store c = None"
  by (simp add: example_store_def)

lemma example_store_docs: "docs example_store = [north_lodge, city_inn, abc_house, new_hall]"
  by (simp add: example_store_def)

theorem get_hostel_data_page_witness:
  "Fin 2 = parseInt_or (Some [160, 50]) (Fin 1) \<and>
   Fin 3 = parseInt_or (Some (ascii ''3'')) (Fin 5) \<and>
   num_le (Fin 1) (Fin 2) \<and> num_le (Fin 1) (Fin 3) \<and>
   outage example_store CountDocuments = None \<and>
   issued (get_hostel_data example_store example_state (Some [160, 50]) (Some (ascii ''3''))) =
     [CountDocuments, Find \<lparr>conditions = Fields None None, sort_rating = None,
        skip_n = Some (Fin 3), limit_n = Some (Fin 3)\<rparr>] \<and>
   reply (get_hostel_data example_store example_state (Some [160, 50]) (Some (ascii ''3''))) =
     \<lparr>status = 200, payload = JsonPage (Fin 2) (Fin 2) [new_hall]\<rparr>"
proof -
  let ?g = "get_hostel_data example_store example_state (Some [160, 50]) (Some (ascii ''3''))"
  let ?q = "\<lparr>conditions = Fields None None, sort_rating = None,
      skip_n = Some (js_mul (js_sub (Fin 2) (Fin 1)) (Fin 3)), limit_n = Some (Fin 3)\<rparr>"
  have p: "Fin 2 = parseInt_or (Some [160, 50]) (Fin 1)" by (simp add: parseInt_or_nbsp_page2)
  have l: "Fin 3 = parseInt_or (Some (ascii ''3'')) (Fin 5)" by (simp add: parseInt_or_limit3)
  have nl: "num_le (Fin 1) (Fin 2)" "num_le (Fin 1) (Fin 3)" by simp_all
  have u: "outage example_store CountDocuments = None" "outage example_store (Find ?q) = None"
    by (rule example_store_up)+
  note t = get_hostel_data_page [OF p l nl refl refl u(1), of example_state]
  note ta = t [THEN conjunct1]
  note tb = t [THEN conjunct2, THEN conjunct1, rule_format]
  note tc = t [THEN conjunct2, THEN conjunct2, rule_format, of 2 3]
  have h: "Fin 2 = Fin (of_int 2) \<and> Fin 3 = Fin (of_int 3) \<and> ((2::int) - 1) * 3 \<le> 2 ^ 53 \<and>
      (3::int) < 2 ^ 63"
    by simp
  from tc [OF h] have sk: "js_mul (js_sub (Fin 2) (Fin 1)) (Fin 3) = Fin (of_int ((2 - 1) * 3))"
    by (rule conjunct1)
  from tc [OF h] u(2) obtain tp where r: "reply ?g =
      \<lparr>status = 200,
       payload = JsonPage tp (Fin 2) (take (nat 3) (drop (nat ((2 - 1) * 3)) (docs example_store)))\<rparr>"
    by blast
  from tb [OF r] obtain l' n' where b: "Fin 3 = Fin (of_int l')"
      "length (docs example_store) < 2 ^ 53 \<longrightarrow>
         (\<exists>n. tp = Fin (of_int n) \<and> (n - 1) * l' < int (length (docs example_store)) \<and>
              int (length (docs example_store)) \<le> n * l')"
    by blast
  from b(1) have l': "l' = 3" by simp
  from b(2) obtain n where n: "tp = Fin (of_int n)" "(n - 1) * 3 < 4" "4 \<le> n * 3"
    by (auto simp: example_store_docs l')
  from n(2,3) have "n = 2" by simp
  with n(1) have tp: "tp = Fin 2" by simp
  from r have r': "reply ?g = \<lparr>status = 200, payload = JsonPage (Fin 2) (Fin 2) [new_hall]\<rparr>"
    by (simp add: tp example_store_docs numeral_3_eq_3)
  from ta sk have i: "issued ?g =
     [CountDocuments, Find \<lparr>conditions = Fields None None, sort_rating = None,
        skip_n = Some (Fin 3), limit_n = Some (Fin 3)\<rparr>]"
    by simp
  from p l nl u(1) i r' show ?thesis by blast
qed

text \<open>
  A page beyond \<open>2^53\<close> is the double that \<^verbatim>\<open>parseInt\<close> returns, and the skip is computed
  from it: \<^verbatim>\<open>?page=9007199254740993&limit=1\<close> asks for skip 9007199254740991.
\<close>

lemma large_page_skip:
  "issued (get_hostel_data example_store example_state
      (Some (ascii ''9007199254740993'')) (Some (ascii ''1''))) =
     [CountDocuments, Find \<lparr>conditions = Fields None None, sort_rating = None,
        skip_n = Some (Fin 9007199254740991), limit_n = Some (Fin 1)\<rparr>]"
proof -
  have l: "parseInt_or (Some (ascii ''1'')) (Fin 5) = Fin 1" by (simp add: parse_defs)
  have "js_mul (js_sub (Fin (of_int 9007199254740992)) (Fin 1)) (Fin (of_int 1)) =
      Fin (of_int ((9007199254740992 - 1) * 1))"
    by (rule skip_exact) simp_all
  then have s: "js_mul (js_sub (Fin 9007199254740992) (Fin 1)) (Fin 1) = Fin 9007199254740991"
    by simp
  show ?thesis
    by (simp add: get_hostel_data_unfold [OF example_store_up refl] parseInt_or_large l s
        split: sum.splits)
qed

section \<open>Defaults of page and limit\<close>

lemma get_hostel_data_reply:
  "(\<exists>e. reply (get_hostel_data st s pp lp) =
        \<lparr>status = 500, payload = JsonError ''Error fetching hostel data'' e\<rparr>) \<or>
   (\<exists>tp hs. reply (get_hostel_data st s pp lp) =
        \<lparr>status = 200, payload = JsonPage tp (parseInt_or pp (Fin 1)) hs\<rparr>)"
  by (simp add: get_hostel_data_def Let_def split: sum.splits)

lemma get_hostel_data_issued:
  assumes "outage st CountDocuments = None"
  shows "issued (get_hostel_data st s pp lp) =
     [CountDocuments, Find \<lparr>conditions = Fields None None, sort_rating = None,
        skip_n = Some (js_mul (js_sub (parseInt_or pp (Fin 1)) (Fin 1)) (parseInt_or lp (Fin 5))),
        limit_n = Some (parseInt_or lp (Fin 5))\<rparr>]"
  by (simp add: get_hostel_data_unfold [OF assms refl] split: sum.splits)

text \<open>
  C7, amended. \<^verbatim>\<open>GET /hostel-data\<close> uses \<open>page = 1\<close> when the \<open>page\<close> parameter is absent,
  when \<^verbatim>\<open>parseInt\<close> finds no number in it, and when it parses to 0; otherwise \<open>page\<close> is the
  number \<^verbatim>\<open>parseInt\<close> reads from it, negative ones included. The same holds of \<open>limit\<close>
  with the default 5, here and in \<^verbatim>\<open>GET /hostel-limit\<close>. The values are not validated:
  they go into the store call as \<open>skip = (page - 1) * limit\<close> and \<open>limit\<close>, into
  \<open>currentPage\<close> and into the slice of the cache, and the handler never answers 400.
\<close>

theorem page_limit_defaults:
  assumes "outage st CountDocuments = None"
  shows "\<exists>page limit.
     issued (get_hostel_data st s pp lp) =
       [CountDocuments, Find \<lparr>conditions = Fields None None, sort_rating = None,
          skip_n = Some (js_mul (js_sub page (Fin 1)) limit), limit_n = Some limit\<rparr>] \<and>
     (\<forall>tp cp hs. reply (get_hostel_data st s pp lp) =
          \<lparr>status = 200, payload = JsonPage tp cp hs\<rparr> \<longrightarrow> cp = page) \<and>
     status (reply (get_hostel_data st s pp lp)) \<noteq> 400 \<and>
     payload (reply (get_hostel_limit s lp)) = JsonHostels (slice0 (hostelCache s) limit) \<and>
     (pp = None \<or> (\<exists>p. pp = Some p \<and> (parseInt p = NaN \<or> parseInt p = Fin 0)) \<longrightarrow>
        page = Fin 1) \<and>
     (\<forall>p. pp = Some p \<and> parseInt p \<noteq> NaN \<and> parseInt p \<noteq> Fin 0 \<longrightarrow> page = parseInt p) \<and>
     (lp = None \<or> (\<exists>l. lp = Some l \<and> (parseInt l = NaN \<or> parseInt l = Fin 0)) \<longrightarrow>
        limit = Fin 5) \<and>
     (\<forall>l. lp = Some l \<and> parseInt l \<noteq> NaN \<and> parseInt l \<noteq> Fin 0 \<longrightarrow> limit = parseInt l)"
proof (intro exI conjI)
  show "issued (get_hostel_data st s pp lp) =
       [CountDocuments, Find \<lparr>conditions = Fields None None, sort_rating = None,
          skip_n = Some (js_mul (js_sub (parseInt_or pp (Fin 1)) (Fin 1)) (parseInt_or lp (Fin 5))),
          limit_n = Some (parseInt_or lp (Fin 5))\<rparr>]"
    by (rule get_hostel_data_issued [OF assms])
  show "\<forall>tp cp hs. reply (get_hostel_data st s pp lp) =
          \<lparr>status = 200, payload = JsonPage tp cp hs\<rparr> \<longrightarrow> cp = parseInt_or pp (Fin 1)"
    using get_hostel_data_reply [of st s pp lp] by auto
  show "status (reply (get_hostel_data st s pp lp)) \<noteq> 400"
    using get_hostel_data_reply [of st s pp lp] by auto
  show "payload (reply (get_hostel_limit s lp)) =
      JsonHostels (slice0 (hostelCache s) (parseInt_or lp (Fin 5)))"
    by (simp add: get_hostel_limit_eq)
  show "pp = None \<or> (\<exists>p. pp = Some p \<and> (parseInt p = NaN \<or> parseInt p = Fin 0)) \<longrightarrow>
      parseInt_or pp (Fin 1) = Fin 1"
    by (auto simp: parseInt_or_def falsy_num_def)
  show "\<forall>p. pp = Some p \<and> parseInt p \<noteq> NaN \<and> parseInt p \<noteq> Fin 0 \<longrightarrow>
      parseInt_or pp (Fin 1) = parseInt p"
    by (auto simp: parseInt_or_def falsy_num_def)
  show "lp = None \<or> (\<exists>l. lp = Some l \<and> (parseInt l = NaN \<or> parseInt l = Fin 0)) \<longrightarrow>
      parseInt_or lp (Fin 5) = Fin 5"
    by (auto simp: parseInt_or_def falsy_num_def)
  show "\<forall>l. lp = Some l \<and> parseInt l \<noteq> NaN \<and> parseInt l \<noteq> Fin 0 \<longrightarrow>
      parseInt_or lp (Fin 5) = parseInt l"
    by (auto simp: parseInt_or_def falsy_num_def)
qed

lemma parseInt_minus_2: "parseInt (ascii ''-2'') = Fin (- 2)"
  by (simp add: parse_defs)

lemma parseInt_banana: "parseInt (ascii ''banana'') = NaN"
  by (simp add: parse_defs)

lemma parseInt_zero: "parseInt (ascii ''0'') = Fin 0"
  by (simp add: parse_defs)

lemma skip_minus_15: "js_mul (js_sub (Fin (- 2)) (Fin 1)) (Fin 5) = Fin (- 15)"
  by (simp add: js_sub_def js_mul_def to_double_neg_numeral)

lemma skip_zero: "js_mul (js_sub (Fin 1) (Fin 1)) (Fin 5) = Fin 0"
  by (simp add: js_sub_def js_mul_def to_double_zero)

theorem page_limit_defaults_witness:
  "outage example_store CountDocuments = None \<and>
   parseInt (ascii ''-2'') = Fin (- 2) \<and> parseInt (ascii ''banana'') = NaN \<and>
   issued (get_hostel_data example_store example_state
      (Some (ascii ''-2'')) (Some (ascii ''banana''))) =
     [CountDocuments, Find \<lparr>conditions = Fields None None, sort_rating = None,
        skip_n = Some (Fin (- 15)), limit_n = Some (Fin 5)\<rparr>]"
proof -
  let ?g = "get_hostel_data example_store example_state
      (Some (ascii ''-2'')) (Some (ascii ''banana''))"
  have u: "outage example_store CountDocuments = None" by (rule example_store_up)
  from page_limit_defaults [OF u, of example_state "Some (ascii ''-2'')" "Some (ascii ''banana'')"]
  obtain page limit where r:
    "issued ?g =
       [CountDocuments, Find \<lparr>conditions = Fields None None, sort_rating = None,
          skip_n = Some (js_mul (js_sub page (Fin 1)) limit), limit_n = Some limit\<rparr>]"
    "\<forall>p. Some (ascii ''-2'') = Some p \<and> parseInt p \<noteq> NaN \<and> parseInt p \<noteq> Fin 0 \<longrightarrow>
       page = parseInt p"
    "Some (ascii ''banana'') = None \<or>
       (\<exists>l. Some (ascii ''banana'') = Some l \<and> (parseInt l = NaN \<or> parseInt l = Fin 0)) \<longrightarrow>
       limit = Fin 5"
    by (elim exE conjE) (rule that)
  from r(2) parseInt_minus_2 have p: "page = Fin (- 2)" by simp
  from r(3) parseInt_banana have l: "limit = Fin 5" by simp
  from r(1) have "issued ?g =
     [CountDocuments, Find \<lparr>conditions = Fields None None, sort_rating = None,
        skip_n = Some (Fin (- 15)), limit_n = Some (Fin 5)\<rparr>]"
    by (simp add: p l skip_minus_15)
  with u parseInt_minus_2 parseInt_banana show ?thesis by blast
qed

text \<open>
  C7, as the claim states it, fails for the numeric value 0: \<^verbatim>\<open>?page=0&limit=0\<close> is not
  used as supplied; \<open>page\<close> is 1 and \<open>limit\<close> is 5, in the store call, in \<open>currentPage\<close> and
  in the slice of the cache.
\<close>

theorem zero_limit_selects_default:
  "parseInt (ascii ''0'') = Fin 0 \<and>
   issued (get_hostel_data example_store example_state (Some (ascii ''0'')) (Some (ascii ''0''))) =
     [CountDocuments, Find \<lparr>conditions = Fields None None, sort_rating = None,
        skip_n = Some (Fin 0), limit_n = Some (Fin 5)\<rparr>] \<and>
   reply (get_hostel_data example_store example_state (Some (ascii ''0'')) (Some (ascii ''0''))) =
     \<lparr>status = 200,
      payload = JsonPage (Fin 1) (Fin 1) [north_lodge, city_inn, abc_house, new_hall]\<rparr> \<and>
   payload (reply (get_hostel_limit example_state (Some (ascii ''0'')))) =
     JsonHostels [north_lodge, city_inn, abc_house]"
proof -
  let ?g = "get_hostel_data example_store example_state (Some (ascii ''0'')) (Some (ascii ''0''))"
  have z: "parseInt_or (Some (ascii ''0'')) (Fin 1) = Fin 1"
      "parseInt_or (Some (ascii ''0'')) (Fin 5) = Fin 5"
    by (simp_all add: parseInt_or_def falsy_num_def parseInt_zero)
  have i: "issued ?g =
     [CountDocuments, Find \<lparr>conditions = Fields None None, sort_rating = None,
        skip_n = Some (Fin 0), limit_n = Some (Fin 5)\<rparr>]"
    by (simp add: get_hostel_data_issued example_store_up z skip_zero)
  have "find_docs example_store (find_all\<lparr>skip_n := Some (Fin (of_int 0)),
      limit_n := Some (Fin (of_int 5))\<rparr>) =
      Inr (take (nat 5) (drop (nat 0) (docs example_store)))"
    by (rule find_docs_page) (simp_all add: example_store_up)
  then have f: "find_docs example_store \<lparr>conditions = Fields None None, sort_rating = None,
      skip_n = Some (Fin 0), limit_n = Some (Fin 5)\<rparr> =
      Inr [north_lodge, city_inn, abc_house, new_hall]"
    by (simp add: find_all_def example_store_docs)
  have "js_ceil (js_div (to_double (of_nat (length (docs example_store)))) (Fin (of_int 5))) =
      Fin (of_int \<lceil>(of_nat (length (docs example_store)) :: rat) / of_int 5\<rceil>)"
    by (rule total_pages_exact) (simp_all add: example_store_docs)
  moreover have "\<lceil>(of_nat (length (docs example_store)) :: rat) / of_int 5\<rceil> = 1"
    by (simp add: example_store_docs ceiling_eq_iff)
  ultimately have c: "js_ceil (js_div (to_double (of_nat (length (docs example_store)))) (Fin 5)) =
      Fin 1"
    by simp
  have r: "reply ?g =
     \<lparr>status = 200,
      payload = JsonPage (Fin 1) (Fin 1) [north_lodge, city_inn, abc_house, new_hall]\<rparr>"
    by (simp add: get_hostel_data_unfold [OF example_store_up refl] z skip_zero f c)
  have l: "payload (reply (get_hostel_limit example_state (Some (ascii ''0'')))) =
     JsonHostels [north_lodge, city_inn, abc_house]"
    by (simp add: get_hostel_limit_eq z slice0_numeral example_state_def)
  from parseInt_zero i r l show ?thesis by blast
qed

section \<open>The cache loader\<close>

lemma prefetch_failure:
  assumes "outage st (Find find_all) = Some e"
  shows "prefetchHostelData st s =
     (s\<lparr>console := console s @ [Error ''Error pre-fetching hostel data:'' e]\<rparr>, Fulfilled)"
  using assms by (simp add: prefetchHostelData_def find_docs_all)

lemma prefetch_success:
  assumes "outage st (Find find_all) = None"
  shows "prefetchHostelData st s =
     (s\<lparr>hostelCache := docs st,
        console := console s @ [Log ''Hostel data pre-fetched and cached'']\<rparr>, Fulfilled)"
  using assms by (simp add: prefetchHostelData_def find_docs_all)

text \<open>
  C3. When the store read of \<^verbatim>\<open>prefetchHostelData\<close> fails, the cache is left as it was
  (empty, for the one run at start-up), the error is printed on the console, and the
  function still fulfils: the failure is not fatal. Whatever the store does, the cache after
  the loader is either the cache before it or the complete sequence of the store's
  documents, never a part of it.
\<close>

theorem prefetch_failure_keeps_cache:
  "(\<forall>e. outage st (Find find_all) = Some e \<longrightarrow>
       hostelCache (fst (prefetchHostelData st s)) = hostelCache s \<and>
       console (fst (prefetchHostelData st s)) =
         console s @ [Error ''Error pre-fetching hostel data:'' e] \<and>
       hostelCache (startup None st) = []) \<and>
   snd (prefetchHostelData st s) = Fulfilled \<and>
   (hostelCache (fst (prefetchHostelData st s)) = hostelCache s \<or>
    hostelCache (fst (prefetchHostelData st s)) = docs st)"
proof (cases "outage st (Find find_all)")
  case None
  then show ?thesis by (simp add: prefetch_success)
next
  case (Some e)
  then show ?thesis by (simp add: prefetch_failure startup_def initial_state_def)
qed

theorem prefetch_failure_keeps_cache_witness:
  "outage failing_store (Find find_all) = Some ''connection refused'' \<and>
   hostelCache (fst (prefetchHostelData failing_store example_state)) =
     [north_lodge, city_inn, abc_house] \<and>
   console (fst (prefetchHostelData failing_store example_state)) =
     [Error ''Error pre-fetching hostel data:'' ''connection refused''] \<and>
   hostelCache (startup None failing_store) = [] \<and>
   snd (prefetchHostelData failing_store example_state) = Fulfilled"
proof -
  have o: "outage failing_store (Find find_all) = Some ''connection refused''"
    by (simp add: failing_store_def)
  from prefetch_failure_keeps_cache [of failing_store example_state] o
  have "hostelCache (fst (prefetchHostelData failing_store example_state)) = hostelCache example_state"
    "console (fst (prefetchHostelData failing_store example_state)) =
         console example_state @ [Error ''Error pre-fetching hostel data:'' ''connection refused'']"
    "hostelCache (startup None failing_store) = []"
    "snd (prefetchHostelData failing_store example_state) = Fulfilled"
    by blast+
  with o show ?thesis by (simp add: example_state_def)
qed

section \<open>The cache is written by the loader only\<close>

lemma get_hostel_state: "state (get_hostel s n) = s"
  by (simp add: get_hostel_def split: option.splits)

lemma get_hostel_data_state: "state (get_hostel_data st s pp lp) = s"
  by (simp add: get_hostel_data_def Let_def split: sum.splits)

lemma get_hostels_state: "state (get_hostels rnd st s c r) = s"
  unfolding get_hostels_def Let_def
  by (simp split: sum.split prod.split)

lemma post_search_state: "state (post_search st s q) = s"
  by (simp add: post_search_def Let_def split: sum.splits)

lemma handle_state: "state (handle rnd st s r) = s"
  by (cases r)
    (simp_all add: get_root_def get_about_def get_hostel_state get_hostel_data_state
      get_hostels_state post_search_state get_hostel_limit_eq)

lemma serve_state: "serve rnd s rs = s"
proof (induction rs arbitrary: s)
  case Nil
  show ?case by simp
next
  case (Cons a rs)
  obtain st r where a: "a = (st, r)" by (cases a)
  show ?case by (simp add: a handle_state Cons.IH)
qed

text \<open>
  C10. No request handler modifies the cache: after any one request, and after any sequence
  of requests, to any route and whatever the store answers, the cache is what it was
  before; in particular it stays what start-up left. The loader is the operation that
  assigns it: when its store read succeeds the cache becomes the store's documents.
\<close>

theorem handlers_keep_cache:
  "hostelCache (state (handle rnd st s r)) = hostelCache s \<and>
   hostelCache (serve rnd s rs) = hostelCache s \<and>
   hostelCache (serve rnd (startup connect_error st) rs) = hostelCache (startup connect_error st) \<and>
   (outage st (Find find_all) = None \<longrightarrow>
      hostelCache (fst (prefetchHostelData st s)) = docs st)"
  by (simp add: handle_state serve_state prefetch_success)

theorem handlers_keep_cache_witness:
  "outage example_store (Find find_all) = None \<and>
   hostelCache (fst (prefetchHostelData example_store initial_state)) =
     [north_lodge, city_inn, abc_house, new_hall] \<and>
   hostelCache (state (handle Fin example_store example_state (PostSearch (ascii ''north'')))) =
     [north_lodge, city_inn, abc_house] \<and>
   hostelCache (serve Fin example_state
       [(example_store, GetHostel (ascii ''abc'')), (failing_store, GetHostelData None None),
        (example_store, GetHostels (Some (ascii ''boys'')) (Some (ascii ''3''))),
        (example_store, GetHostelLimit (Some (ascii ''1'')))]) =
     [north_lodge, city_inn, abc_house]"
proof -
  have u: "outage example_store (Find find_all) = None" by (rule example_store_up)
  have c: "hostelCache example_state = [north_lodge, city_inn, abc_house]"
    by (simp add: example_state_def)
  from handlers_keep_cache [of Fin example_store initial_state] u
  have a: "hostelCache (fst (prefetchHostelData example_store initial_state)) =
     [north_lodge, city_inn, abc_house, new_hall]"
    by (simp add: example_store_docs)
  from handlers_keep_cache [of Fin example_store example_state "PostSearch (ascii ''north'')"]
  have b: "hostelCache (state (handle Fin example_store example_state (PostSearch (ascii ''north'')))) =
     [north_lodge, city_inn, abc_house]"
    by (simp only: c)
  from handlers_keep_cache [of Fin example_store example_state GetRoot
      "[(example_store, GetHostel (ascii ''abc'')), (failing_store, GetHostelData None None),
        (example_store, GetHostels (Some (ascii ''boys'')) (Some (ascii ''3''))),
        (example_store, GetHostelLimit (Some (ascii ''1'')))]"]
  have d: "hostelCache (serve Fin example_state
       [(example_store, GetHostel (ascii ''abc'')), (failing_store, GetHostelData None None),
        (example_store, GetHostels (Some (ascii ''boys'')) (Some (ascii ''3''))),
        (example_store, GetHostelLimit (Some (ascii ''1'')))]) =
     [north_lodge, city_inn, abc_house]"
    by (simp only: c)
  from u a b d show ?thesis by blast
qed

section \<open>Filtering and sorting by rating\<close>

lemma find_docs_plain:
  assumes "outage st (Find q) = None" and "skip_n q = None" and "limit_n q = None"
  shows "find_docs st q =
     Inr (sort_docs (sort_rating q) (filter (matches st (conditions q)) (docs st)))"
  using assms by (simp add: find_docs_def skip_docs_def limit_docs_def)

lemma find_docs_plain_result:
  assumes "find_docs st q = Inr hs" and "skip_n q = None" and "limit_n q = None"
  shows "hs = sort_docs (sort_rating q) (filter (matches st (conditions q)) (docs st))"
  using assms
  by (simp add: find_docs_def skip_docs_def limit_docs_def split: option.splits)

lemma parseFloat_empty: "parseFloat rnd [] = NaN"
  by (simp add: parseFloat_def ascii_def)

lemma get_hostels_invalid:
  assumes "r \<noteq> []" and "r \<noteq> ascii ''low-to-high''" and "r \<noteq> ascii ''high-to-low''"
      and "parseFloat rnd r = NaN"
  shows "get_hostels rnd st s c (Some r) =
     \<lparr>state = s,
      reply = \<lparr>status = 400, payload = JsonMessage ''Invalid rating value provided''\<rparr>,
      issued = []\<rparr>"
  using assms by (simp add: get_hostels_def truthy_def)

text \<open>The three ways in which the handler reaches the store.\<close>

lemma get_hostels_query:
  assumes "built = Inr (rmin, srt)"
      and "q = \<lparr>conditions = Fields (if truthy c then c else None) rmin, sort_rating = srt,
                  skip_n = None, limit_n = None\<rparr>"
      and "(case rp of
               None \<Rightarrow> Inr (None, None)
             | Some rating_str \<Rightarrow>
                 if \<not> truthy rp then Inr (None, None)
                 else if rating_str = ascii ''low-to-high'' then Inr (None, Some Asc)
                 else if rating_str = ascii ''high-to-low'' then Inr (None, Some Desc)
                 else
                   (let parsedRating = parseFloat rnd rating_str
                    in if parsedRating \<noteq> NaN then Inr (Some parsedRating, None)
                       else Inl rating_str)) = built"
  shows "get_hostels rnd st s c rp =
     (case find_docs st q of
        Inl error \<Rightarrow>
          \<lparr>state = s,
           reply = \<lparr>status = 500,
                    payload = JsonError ''Error fetching filtered hostel data'' error\<rparr>,
           issued = [Find q]\<rparr>
      | Inr filteredHostels \<Rightarrow>
          \<lparr>state = s,
           reply = \<lparr>status = 200, payload = JsonHostels filteredHostels\<rparr>,
           issued = [Find q]\<rparr>)"
proof -
  from assms(3) assms(1) have b: "(case rp of
               None \<Rightarrow> Inr (None, None)
             | Some rating_str \<Rightarrow>
                 if \<not> truthy rp then Inr (None, None)
                 else if rating_str = ascii ''low-to-high'' then Inr (None, Some Asc)
                 else if rating_str = ascii ''high-to-low'' then Inr (None, Some Desc)
                 else if parseFloat rnd rating_str \<noteq> NaN
                   then Inr (Some (parseFloat rnd rating_str), None)
                   else Inl rating_str) = Inr (rmin, srt)"
    by (simp only: Let_def)
  show ?thesis unfolding get_hostels_def Let_def b assms(2) by simp
qed

lemma get_hostels_issued_reply:
  assumes g: "get_hostels rnd st s c rp =
     (case find_docs st q of
        Inl error \<Rightarrow>
          \<lparr>state = s,
           reply = \<lparr>status = 500,
                    payload = JsonError ''Error fetching filtered hostel data'' error\<rparr>,
           issued = [Find q]\<rparr>
      | Inr filteredHostels \<Rightarrow>
          \<lparr>state = s,
           reply = \<lparr>status = 200, payload = JsonHostels filteredHostels\<rparr>,
           issued = [Find q]\<rparr>)"
  shows "issued (get_hostels rnd st s c rp) = [Find q]"
    and "reply (get_hostels rnd st s c rp) = \<lparr>status = 200, payload = JsonHostels hs\<rparr> \<Longrightarrow>
           find_docs st q = Inr hs"
    and "find_docs st q = Inr hs \<Longrightarrow>
           reply (get_hostels rnd st s c rp) = \<lparr>status = 200, payload = JsonHostels hs\<rparr>"
  unfolding g by (simp_all split: sum.splits)


lemma sorted_desc: "sorted (rev (map rating (sort_docs (Some Desc) xs)))"
  by (simp add: sort_docs_def rev_map [symmetric])

lemma sorted_asc: "sorted (map rating (sort_docs (Some Asc) xs))"
  by (simp add: sort_docs_def)

lemma set_sort_docs: "set (sort_docs srt xs) = set xs"
  by (cases srt) (auto simp: sort_docs_def split: sort_dir.splits)

lemma matches_fields:
  "matches st (Fields cat rmin) h \<longleftrightarrow>
     (\<forall>c. cat = Some c \<longrightarrow> category h = c) \<and>
     (\<forall>v. rmin = Some v \<longrightarrow> (\<exists>x. rating h = Some x \<and> num_le v (Fin x)))"
  by (auto simp: matches_def split: option.splits)

text \<open>
  C4. When the \<open>rating\<close> parameter of \<^verbatim>\<open>GET /hostels\<close> is present, is neither
  \<^verbatim>\<open>low-to-high\<close> nor \<^verbatim>\<open>high-to-low\<close>, and \<^verbatim>\<open>parseFloat\<close> reads the number \<open>v\<close> from it, the
  one store call is a find whose filter has the condition \<open>rating \<ge> v\<close> (next to the
  category, if one was given) and which has no sort. Every record of a 200 response has a
  rating, and it is at least \<open>v\<close>; when the store answers, the response is 200 with exactly
  the store's records that pass the filter, in natural order.
\<close>

theorem rating_number_filters:
  assumes "r \<noteq> ascii ''low-to-high''" and "r \<noteq> ascii ''high-to-low''"
      and "parseFloat rnd r = v" and "v \<noteq> NaN"
      and "q = \<lparr>conditions = Fields (if truthy c then c else None) (Some v),
                  sort_rating = None, skip_n = None, limit_n = None\<rparr>"
  shows "issued (get_hostels rnd st s c (Some r)) = [Find q] \<and>
     (\<forall>hs. reply (get_hostels rnd st s c (Some r)) = \<lparr>status = 200, payload = JsonHostels hs\<rparr> \<longrightarrow>
        (\<forall>h \<in> set hs. \<exists>x. rating h = Some x \<and> num_le v (Fin x))) \<and>
     (outage st (Find q) = None \<longrightarrow>
        reply (get_hostels rnd st s c (Some r)) =
          \<lparr>status = 200,
           payload = JsonHostels
             (filter (\<lambda>h. (truthy c \<longrightarrow> Some (category h) = c) \<and>
                           (\<exists>x. rating h = Some x \<and> num_le v (Fin x))) (docs st))\<rparr>)"
proof -
  from assms(3,4) have ne: "r \<noteq> []" by (auto simp: parseFloat_empty)
  have g: "get_hostels rnd st s c (Some r) =
     (case find_docs st q of
        Inl error \<Rightarrow>
          \<lparr>state = s,
           reply = \<lparr>status = 500,
                    payload = JsonError ''Error fetching filtered hostel data'' error\<rparr>,
           issued = [Find q]\<rparr>
      | Inr filteredHostels \<Rightarrow>
          \<lparr>state = s,
           reply = \<lparr>status = 200, payload = JsonHostels filteredHostels\<rparr>,
           issued = [Find q]\<rparr>)"
    by (rule get_hostels_query [OF refl assms(5)]) (simp add: truthy_def ne assms(1,2,3,4))
  have sk: "skip_n q = None" "limit_n q = None" "sort_rating q = None"
      "conditions q = Fields (if truthy c then c else None) (Some v)"
    by (simp_all add: assms(5))
  have i: "issued (get_hostels rnd st s c (Some r)) = [Find q]"
    by (rule get_hostels_issued_reply(1) [OF g])
  have a: "\<forall>h \<in> set hs. \<exists>x. rating h = Some x \<and> num_le v (Fin x)"
    if "reply (get_hostels rnd st s c (Some r)) = \<lparr>status = 200, payload = JsonHostels hs\<rparr>" for hs
  proof -
    from get_hostels_issued_reply(2) [OF g that] have "find_docs st q = Inr hs" .
    from find_docs_plain_result [OF this sk(1,2)]
    have "set hs = {h \<in> set (docs st). matches st (conditions q) h}"
      by (simp add: set_sort_docs)
    then show ?thesis by (simp add: sk(4) matches_fields)
  qed
  have b: "reply (get_hostels rnd st s c (Some r)) =
          \<lparr>status = 200,
           payload = JsonHostels
             (filter (\<lambda>h. (truthy c \<longrightarrow> Some (category h) = c) \<and>
                           (\<exists>x. rating h = Some x \<and> num_le v (Fin x))) (docs st))\<rparr>"
    if up: "outage st (Find q) = None"
  proof -
    have m: "matches st (conditions q) =
        (\<lambda>h. (truthy c \<longrightarrow> Some (category h) = c) \<and> (\<exists>x. rating h = Some x \<and> num_le v (Fin x)))"
      by (rule ext) (cases c; auto simp: sk(4) matches_fields truthy_def)
    from find_docs_plain [OF up sk(1,2)]
    have "find_docs st q =
        Inr (filter (\<lambda>h. (truthy c \<longrightarrow> Some (category h) = c) \<and>
                           (\<exists>x. rating h = Some x \<and> num_le v (Fin x))) (docs st))"
      by (simp add: sk(3) sort_docs_def m)
    then show ?thesis by (rule get_hostels_issued_reply(3) [OF g])
  qed
  from i a b show ?thesis by blast
qed

lemma rating_ge_case:
  "(\<exists>x. rating h = Some x \<and> num_le v (Fin x)) =
     (case rating h of None \<Rightarrow> False | Some x \<Rightarrow> num_le v (Fin x))"
  by (cases "rating h") auto

lemmas parseFloat_defs = parseFloat_def ascii_def is_ws_def digit_of_def is_digit_def
  digits_val_def scale10_def exponent_of_def

lemma parseFloat_nbsp_3: "parseFloat Fin [160, 51] = Fin 3"
  by (simp add: parseFloat_defs)

lemma parseFloat_banana: "parseFloat Fin (ascii ''banana'') = NaN"
  by (simp add: parseFloat_defs)

theorem rating_number_filters_witness:
  "[160, 51] \<noteq> ascii ''low-to-high'' \<and> [160, 51] \<noteq> ascii ''high-to-low'' \<and>
   parseFloat Fin [160, 51] = Fin 3 \<and> Fin 3 \<noteq> NaN \<and>
   issued (get_hostels Fin example_store example_state None (Some [160, 51])) =
     [Find \<lparr>conditions = Fields None (Some (Fin 3)), sort_rating = None,
        skip_n = None, limit_n = None\<rparr>] \<and>
   reply (get_hostels Fin example_store example_state None (Some [160, 51])) =
     \<lparr>status = 200, payload = JsonHostels [north_lodge, city_inn]\<rparr>"
proof -
  let ?g = "get_hostels Fin example_store example_state None (Some [160, 51])"
  let ?q = "\<lparr>conditions = Fields (if truthy None then None else None) (Some (Fin 3)),
      sort_rating = None, skip_n = None, limit_n = None\<rparr>"
  have a: "[160, 51] \<noteq> ascii ''low-to-high''" "[160, 51] \<noteq> ascii ''high-to-low''"
    by (simp_all add: ascii_def)
  have v: "Fin 3 \<noteq> NaN" by simp
  note t = rating_number_filters [OF a parseFloat_nbsp_3 v refl,
      of example_store example_state None]
  have u: "outage example_store (Find ?q) = None" by (rule example_store_up)
  from t have i: "issued ?g = [Find ?q]"
    by (rule conjunct1)
  from t u have "reply ?g =
      \<lparr>status = 200,
       payload = JsonHostels
         (filter (\<lambda>h. (truthy None \<longrightarrow> Some (category h) = None) \<and>
                       (\<exists>x. rating h = Some x \<and> num_le (Fin 3) (Fin x))) (docs example_store))\<rparr>"
    by (elim conjE impE)
  then have "reply ?g =
      \<lparr>status = 200,
       payload = JsonHostels
         (filter (\<lambda>h. (truthy None \<longrightarrow> Some (category h) = None) \<and>
                       (case rating h of None \<Rightarrow> False | Some x \<Rightarrow> num_le (Fin 3) (Fin x)))
            (docs example_store))\<rparr>"
    by (simp only: rating_ge_case)
  then have r: "reply ?g = \<lparr>status = 200, payload = JsonHostels [north_lodge, city_inn]\<rparr>"
    by (simp add: example_store_docs truthy_def north_lodge_def city_inn_def abc_house_def
        new_hall_def)
  from i have i': "issued ?g =
     [Find \<lparr>conditions = Fields None (Some (Fin 3)), sort_rating = None,
        skip_n = None, limit_n = None\<rparr>]"
    by simp
  from a parseFloat_nbsp_3 v i' r show ?thesis by blast
qed

text \<open>
  C1, amended. When the \<open>rating\<close> parameter of \<^verbatim>\<open>GET /hostels\<close> is present and not empty,
  is neither \<^verbatim>\<open>low-to-high\<close> nor \<^verbatim>\<open>high-to-low\<close>, and does not parse as a floating-point
  number, the handler answers 400 with the message "Invalid rating value provided" and
  issues no store call. An empty rating is handled exactly as an absent one.
\<close>

theorem invalid_rating_rejected:
  "(r \<noteq> [] \<and> r \<noteq> ascii ''low-to-high'' \<and> r \<noteq> ascii ''high-to-low'' \<and>
    parseFloat rnd r = NaN \<longrightarrow>
      reply (get_hostels rnd st s c (Some r)) =
        \<lparr>status = 400, payload = JsonMessage ''Invalid rating value provided''\<rparr> \<and>
      issued (get_hostels rnd st s c (Some r)) = []) \<and>
   get_hostels rnd st s c (Some []) = get_hostels rnd st s c None"
proof -
  have "get_hostels rnd st s c (Some []) = get_hostels rnd st s c None"
    by (simp add: get_hostels_def truthy_def)
  then show ?thesis by (simp add: get_hostels_invalid)
qed

theorem invalid_rating_rejected_witness:
  "ascii ''banana'' \<noteq> [] \<and> ascii ''banana'' \<noteq> ascii ''low-to-high'' \<and>
   ascii ''banana'' \<noteq> ascii ''high-to-low'' \<and>
   parseFloat Fin (ascii ''banana'') = NaN \<and>
   reply (get_hostels Fin example_store example_state (Some (ascii ''boys''))
      (Some (ascii ''banana''))) =
     \<lparr>status = 400, payload = JsonMessage ''Invalid rating value provided''\<rparr> \<and>
   issued (get_hostels Fin example_store example_state (Some (ascii ''boys''))
      (Some (ascii ''banana''))) = []"
proof -
  have a: "ascii ''banana'' \<noteq> [] \<and> ascii ''banana'' \<noteq> ascii ''low-to-high'' \<and>
      ascii ''banana'' \<noteq> ascii ''high-to-low'' \<and> parseFloat Fin (ascii ''banana'') = NaN"
    by (simp add: parseFloat_banana) (simp add: ascii_def)
  from invalid_rating_rejected [of "ascii ''banana''" Fin example_store example_state
      "Some (ascii ''boys'')", THEN conjunct1, rule_format, OF a] a
  show ?thesis by blast
qed

text \<open>
  C1, as the claim states it, fails for the empty rating: in \<^verbatim>\<open>GET /hostels?rating=\<close> the
  parameter is present, is neither token and does not parse as a number, yet the handler
  treats it as absent (\<^verbatim>\<open>if (rating)\<close>), queries the store without a rating filter and
  answers 200.
\<close>

theorem empty_rating_queries_store:
  "[] \<noteq> ascii ''low-to-high'' \<and> [] \<noteq> ascii ''high-to-low'' \<and> parseFloat Fin [] = NaN \<and>
   issued (get_hostels Fin example_store example_state None (Some [])) =
     [Find \<lparr>conditions = Fields None None, sort_rating = None, skip_n = None, limit_n = None\<rparr>] \<and>
   reply (get_hostels Fin example_store example_state None (Some [])) =
     \<lparr>status = 200, payload = JsonHostels [north_lodge, city_inn, abc_house, new_hall]\<rparr>"
proof -
  let ?q = "\<lparr>conditions = Fields (if truthy None then None else None) None, sort_rating = None,
      skip_n = None, limit_n = None\<rparr>"
  have g: "get_hostels Fin example_store example_state None (Some []) =
     (case find_docs example_store ?q of
        Inl error \<Rightarrow>
          \<lparr>state = example_state,
           reply = \<lparr>status = 500,
                    payload = JsonError ''Error fetching filtered hostel data'' error\<rparr>,
           issued = [Find ?q]\<rparr>
      | Inr filteredHostels \<Rightarrow>
          \<lparr>state = example_state,
           reply = \<lparr>status = 200, payload = JsonHostels filteredHostels\<rparr>,
           issued = [Find ?q]\<rparr>)"
    by (rule get_hostels_query [OF refl refl]) (simp add: truthy_def)
  have f: "find_docs example_store ?q = Inr [north_lodge, city_inn, abc_house, new_hall]"
    by (simp add: find_docs_plain example_store_up sort_docs_def matches_no_filter
        example_store_docs truthy_def)
  from get_hostels_issued_reply(1) [OF g] get_hostels_issued_reply(3) [OF g f]
  show ?thesis by (simp add: parseFloat_empty truthy_def ascii_def)
qed

section \<open>Sorting by rating\<close>

lemma mset_sort_docs: "mset (sort_docs srt xs) = mset xs"
  by (cases srt) (auto simp: sort_docs_def split: sort_dir.splits)

lemma matches_category:
  "matches st (Fields (if truthy c then c else None) None) =
     (\<lambda>h. truthy c \<longrightarrow> Some (category h) = c)"
  by (rule ext) (cases c; auto simp: matches_fields truthy_def)

lemma sorted_find:
  assumes g: "get_hostels rnd st s c rp =
     (case find_docs st q of
        Inl error \<Rightarrow>
          \<lparr>state = s,
           reply = \<lparr>status = 500,
                    payload = JsonError ''Error fetching filtered hostel data'' error\<rparr>,
           issued = [Find q]\<rparr>
      | Inr filteredHostels \<Rightarrow>
          \<lparr>state = s,
           reply = \<lparr>status = 200, payload = JsonHostels filteredHostels\<rparr>,
           issued = [Find q]\<rparr>)"
    and q: "q = \<lparr>conditions = Fields (if truthy c then c else None) None, sort_rating = Some d,
                 skip_n = None, limit_n = None\<rparr>"
  shows "issued (get_hostels rnd st s c rp) = [Find q]"
    and "reply (get_hostels rnd st s c rp) = \<lparr>status = 200, payload = JsonHostels hs\<rparr> \<Longrightarrow>
           hs = sort_docs (Some d) (filter (\<lambda>h. truthy c \<longrightarrow> Some (category h) = c) (docs st))"
    and "outage st (Find q) = None \<Longrightarrow>
           reply (get_hostels rnd st s c rp) =
             \<lparr>status = 200,
              payload = JsonHostels
                (sort_docs (Some d) (filter (\<lambda>h. truthy c \<longrightarrow> Some (category h) = c) (docs st)))\<rparr>"
proof -
  have sk: "skip_n q = None" "limit_n q = None" "sort_rating q = Some d"
      "conditions q = Fields (if truthy c then c else None) None"
    by (simp_all add: q)
  show "issued (get_hostels rnd st s c rp) = [Find q]"
    by (rule get_hostels_issued_reply(1) [OF g])
  show "hs = sort_docs (Some d) (filter (\<lambda>h. truthy c \<longrightarrow> Some (category h) = c) (docs st))"
    if "reply (get_hostels rnd st s c rp) = \<lparr>status = 200, payload = JsonHostels hs\<rparr>"
    using find_docs_plain_result [OF get_hostels_issued_reply(2) [OF g that] sk(1,2)]
    by (simp add: sk(3,4) matches_category)
  show "reply (get_hostels rnd st s c rp) =
             \<lparr>status = 200,
              payload = JsonHostels
                (sort_docs (Some d) (filter (\<lambda>h. truthy c \<longrightarrow> Some (category h) = c) (docs st)))\<rparr>"
    if "outage st (Find q) = None"
  proof (rule get_hostels_issued_reply(3) [OF g])
    show "find_docs st q =
        Inr (sort_docs (Some d) (filter (\<lambda>h. truthy c \<longrightarrow> Some (category h) = c) (docs st)))"
      using find_docs_plain [OF that sk(1,2)] by (simp add: sk(3,4) matches_category)
  qed
qed

text \<open>
  C5. For \<^verbatim>\<open>GET /hostels\<close> with rating \<^verbatim>\<open>low-to-high\<close> the one store call is a find sorted
  ascending by rating whose filter has no rating condition (only the category, if one was
  given), and the ratings of a 200 response are non-decreasing along the array; with
  \<^verbatim>\<open>high-to-low\<close> the sort is descending and the ratings are non-increasing. In both cases
  the response holds exactly the store's records of the category, and it is a 200 response
  whenever the store answers. Ratings are compared as the store does: a record without a
  rating is below every rated one.
\<close>

theorem rating_tokens_sort:
  assumes qa: "qa = \<lparr>conditions = Fields (if truthy c then c else None) None,
                       sort_rating = Some Asc, skip_n = None, limit_n = None\<rparr>"
      and qd: "qd = \<lparr>conditions = Fields (if truthy c then c else None) None,
                       sort_rating = Some Desc, skip_n = None, limit_n = None\<rparr>"
  shows "issued (get_hostels rnd st s c (Some (ascii ''low-to-high''))) = [Find qa] \<and>
     (\<forall>hs. reply (get_hostels rnd st s c (Some (ascii ''low-to-high''))) =
            \<lparr>status = 200, payload = JsonHostels hs\<rparr> \<longrightarrow>
          sorted (map rating hs) \<and>
          mset hs = mset (filter (\<lambda>h. truthy c \<longrightarrow> Some (category h) = c) (docs st))) \<and>
     (outage st (Find qa) = None \<longrightarrow>
        (\<exists>hs. reply (get_hostels rnd st s c (Some (ascii ''low-to-high''))) =
            \<lparr>status = 200, payload = JsonHostels hs\<rparr>)) \<and>
     issued (get_hostels rnd st s c (Some (ascii ''high-to-low''))) = [Find qd] \<and>
     (\<forall>hs. reply (get_hostels rnd st s c (Some (ascii ''high-to-low''))) =
            \<lparr>status = 200, payload = JsonHostels hs\<rparr> \<longrightarrow>
          sorted (rev (map rating hs)) \<and>
          mset hs = mset (filter (\<lambda>h. truthy c \<longrightarrow> Some (category h) = c) (docs st))) \<and>
     (outage st (Find qd) = None \<longrightarrow>
        (\<exists>hs. reply (get_hostels rnd st s c (Some (ascii ''high-to-low''))) =
            \<lparr>status = 200, payload = JsonHostels hs\<rparr>))"
proof -
  have ga: "get_hostels rnd st s c (Some (ascii ''low-to-high'')) =
     (case find_docs st qa of
        Inl error \<Rightarrow>
          \<lparr>state = s,
           reply = \<lparr>status = 500,
                    payload = JsonError ''Error fetching filtered hostel data'' error\<rparr>,
           issued = [Find qa]\<rparr>
      | Inr filteredHostels \<Rightarrow>
          \<lparr>state = s,
           reply = \<lparr>status = 200, payload = JsonHostels filteredHostels\<rparr>,
           issued = [Find qa]\<rparr>)"
    by (rule get_hostels_query [OF refl qa]) (simp add: truthy_def ascii_def)
  have gd: "get_hostels rnd st s c (Some (ascii ''high-to-low'')) =
     (case find_docs st qd of
        Inl error \<Rightarrow>
          \<lparr>state = s,
           reply = \<lparr>status = 500,
                    payload = JsonError ''Error fetching filtered hostel data'' error\<rparr>,
           issued = [Find qd]\<rparr>
      | Inr filteredHostels \<Rightarrow>
          \<lparr>state = s,
           reply = \<lparr>status = 200, payload = JsonHostels filteredHostels\<rparr>,
           issued = [Find qd]\<rparr>)"
    by (rule get_hostels_query [OF refl qd]) (simp add: truthy_def ascii_def)
  note a = sorted_find [OF ga qa]
  note d = sorted_find [OF gd qd]
  have a2: "sorted (map rating hs) \<and>
      mset hs = mset (filter (\<lambda>h. truthy c \<longrightarrow> Some (category h) = c) (docs st))"
    if "reply (get_hostels rnd st s c (Some (ascii ''low-to-high''))) =
            \<lparr>status = 200, payload = JsonHostels hs\<rparr>" for hs
    unfolding a(2) [OF that] by (simp only: sorted_asc mset_sort_docs simp_thms)
  have d2: "sorted (rev (map rating hs)) \<and>
      mset hs = mset (filter (\<lambda>h. truthy c \<longrightarrow> Some (category h) = c) (docs st))"
    if "reply (get_hostels rnd st s c (Some (ascii ''high-to-low''))) =
            \<lparr>status = 200, payload = JsonHostels hs\<rparr>" for hs
    unfolding d(2) [OF that] by (simp only: sorted_desc mset_sort_docs simp_thms)
  from a(1) a2 a(3) d(1) d2 d(3) show ?thesis by blast
qed

lemma example_sorted_asc:
  "sort_docs (Some Asc) (docs example_store) = [new_hall, abc_house, north_lodge, city_inn]"
  by (simp add: sort_docs_def example_store_docs north_lodge_def city_inn_def abc_house_def
      new_hall_def)

lemma example_sorted_desc:
  "sort_docs (Some Desc) (docs example_store) = [city_inn, north_lodge, abc_house, new_hall]"
  by (simp add: sort_docs_def example_store_docs north_lodge_def city_inn_def abc_house_def
      new_hall_def)

theorem rating_tokens_sort_witness:
  "reply (get_hostels Fin example_store example_state None (Some (ascii ''low-to-high''))) =
     \<lparr>status = 200, payload = JsonHostels [new_hall, abc_house, north_lodge, city_inn]\<rparr> \<and>
   sorted (map rating [new_hall, abc_house, north_lodge, city_inn]) \<and>
   map rating [new_hall, abc_house, north_lodge, city_inn] = [None, Some 2, Some 3, Some (9 / 2)] \<and>
   reply (get_hostels Fin example_store example_state None (Some (ascii ''high-to-low''))) =
     \<lparr>status = 200, payload = JsonHostels [city_inn, north_lodge, abc_house, new_hall]\<rparr> \<and>
   sorted (rev (map rating [city_inn, north_lodge, abc_house, new_hall])) \<and>
   issued (get_hostels Fin example_store example_state None (Some (ascii ''low-to-high''))) =
     [Find \<lparr>conditions = Fields None None, sort_rating = Some Asc,
        skip_n = None, limit_n = None\<rparr>]"
proof -
  let ?qa = "\<lparr>conditions = Fields (if truthy None then None else None) None,
      sort_rating = Some Asc, skip_n = None, limit_n = None\<rparr>"
  let ?qd = "\<lparr>conditions = Fields (if truthy None then None else None) None,
      sort_rating = Some Desc, skip_n = None, limit_n = None\<rparr>"
  note t = rating_tokens_sort [OF refl refl, of Fin example_store example_state None]
  have ua: "outage example_store (Find ?qa) = None" and ud: "outage example_store (Find ?qd) = None"
    by (rule example_store_up)+
  note t2 = t [THEN conjunct2, THEN conjunct1]
  note t3 = t [THEN conjunct2, THEN conjunct2, THEN conjunct1]
  note t5 = t [THEN conjunct2, THEN conjunct2, THEN conjunct2, THEN conjunct2, THEN conjunct1]
  note t6 = t [THEN conjunct2, THEN conjunct2, THEN conjunct2, THEN conjunct2, THEN conjunct2]
  from t3 ua obtain ha where
    ha: "reply (get_hostels Fin example_store example_state None (Some (ascii ''low-to-high''))) =
            \<lparr>status = 200, payload = JsonHostels ha\<rparr>"
    by blast
  from t6 ud obtain hd where
    hd: "reply (get_hostels Fin example_store example_state None (Some (ascii ''high-to-low''))) =
            \<lparr>status = 200, payload = JsonHostels hd\<rparr>"
    by blast
  from t2 ha have sa: "sorted (map rating ha)" by blast
  from t5 hd have sd: "sorted (rev (map rating hd))" by blast
  have fa: "find_docs example_store ?qa = Inr [new_hall, abc_house, north_lodge, city_inn]"
    by (simp add: find_docs_plain example_store_up matches_no_filter truthy_def
        example_sorted_asc)
  have fd: "find_docs example_store ?qd = Inr [city_inn, north_lodge, abc_house, new_hall]"
    by (simp add: find_docs_plain example_store_up matches_no_filter truthy_def
        example_sorted_desc)
  have ga: "get_hostels Fin example_store example_state None (Some (ascii ''low-to-high'')) =
     (case find_docs example_store ?qa of
        Inl error \<Rightarrow>
          \<lparr>state = example_state,
           reply = \<lparr>status = 500,
                    payload = JsonError ''Error fetching filtered hostel data'' error\<rparr>,
           issued = [Find ?qa]\<rparr>
      | Inr filteredHostels \<Rightarrow>
          \<lparr>state = example_state,
           reply = \<lparr>status = 200, payload = JsonHostels filteredHostels\<rparr>,
           issued = [Find ?qa]\<rparr>)"
    by (rule get_hostels_query [OF refl refl]) (simp add: truthy_def ascii_def)
  have gd: "get_hostels Fin example_store example_state None (Some (ascii ''high-to-low'')) =
     (case find_docs example_store ?qd of
        Inl error \<Rightarrow>
          \<lparr>state = example_state,
           reply = \<lparr>status = 500,
                    payload = JsonError ''Error fetching filtered hostel data'' error\<rparr>,
           issued = [Find ?qd]\<rparr>
      | Inr filteredHostels \<Rightarrow>
          \<lparr>state = example_state,
           reply = \<lparr>status = 200, payload = JsonHostels filteredHostels\<rparr>,
           issued = [Find ?qd]\<rparr>)"
    by (rule get_hostels_query [OF refl refl]) (simp add: truthy_def ascii_def)
  from ha get_hostels_issued_reply(3) [OF ga fa]
  have ea: "ha = [new_hall, abc_house, north_lodge, city_inn]" by simp
  from hd get_hostels_issued_reply(3) [OF gd fd]
  have ed: "hd = [city_inn, north_lodge, abc_house, new_hall]" by simp
  have m: "map rating [new_hall, abc_house, north_lodge, city_inn] =
      [None, Some 2, Some 3, Some (9 / 2)]"
    by (simp add: north_lodge_def city_inn_def abc_house_def new_hall_def)
  from t [THEN conjunct1]
  have i: "issued (get_hostels Fin example_store example_state None
        (Some (ascii ''low-to-high''))) =
     [Find \<lparr>conditions = Fields None None, sort_rating = Some Asc,
        skip_n = None, limit_n = None\<rparr>]"
    by (simp add: truthy_def)
  from ha hd sa sd m i show ?thesis unfolding ea ed by blast
qed

section \<open>Text search\<close>


















end
